theory Spec2Isabelle
  imports Main "HOL-Library.AList"
begin

section \<open>JavaScript values\<close>

text \<open>
  The process manager (\<^verbatim>\<open>src/unnamed/part_004\<close>, the module the bridge imports as
  \<^verbatim>\<open>services/processManager\<close>; line numbers below are its lines) reads the child's stdout as
  newline-delimited JSON and never validates what it parsed: every field it touches is an
  arbitrary JavaScript value. The model therefore works on a datatype of JavaScript values.
  \<^item> \<open>JNum\<close> carries an integer: the code only tests numbers for truthiness and prints
    them, so integer-valued numbers stand for all of them.
  \<^item> \<open>JObj\<close> is the list of an object's own properties in enumeration order, keys
    distinct (what \<^verbatim>\<open>JSON.parse\<close> and an object literal produce).
  \<^item> Strings are \<open>string\<close>; a character outside ASCII is written as its UTF-8 bytes.
\<close>

datatype jsval =
    JUndefined
  | JNull
  | JBool bool
  | JNum int
  | JStr string
  | JArr "jsval list"
  | JObj "(string \<times> jsval) list"

datatype js_error = TypeError | SyntaxError

text \<open>ToBoolean: what \<^verbatim>\<open>if (v)\<close>, \<^verbatim>\<open>!v\<close>, \<^verbatim>\<open>a && b\<close> and \<^verbatim>\<open>a || b\<close> test.\<close>

fun truthy :: "jsval \<Rightarrow> bool" where
  "truthy JUndefined = False"
| "truthy JNull = False"
| "truthy (JBool b) = b"
| "truthy (JNum n) = (n \<noteq> 0)"
| "truthy (JStr s) = (s \<noteq> [])"
| "truthy (JArr xs) = True"
| "truthy (JObj kvs) = True"

text \<open>\<^verbatim>\<open>a || b\<close>\<close>

definition js_or :: "jsval \<Rightarrow> jsval \<Rightarrow> jsval" where
  "js_or a b = (if truthy a then a else b)"

text \<open>
  Reading a property of \<^verbatim>\<open>null\<close> or \<^verbatim>\<open>undefined\<close> raises a TypeError; the model's
  functions test \<open>nullish\<close> before they read with \<open>getp\<close>. On every other value the
  read succeeds: an object gives its property or \<^verbatim>\<open>undefined\<close>, and a primitive or an
  array gives \<^verbatim>\<open>undefined\<close> for each of the names this program reads (none of them is
  a built-in property of strings, numbers, booleans or arrays).
\<close>

definition nullish :: "jsval \<Rightarrow> bool" where
  "nullish v = (v = JUndefined \<or> v = JNull)"

fun getp :: "jsval \<Rightarrow> string \<Rightarrow> jsval" where
  "getp (JObj kvs) k = (case map_of kvs k of None \<Rightarrow> JUndefined | Some v \<Rightarrow> v)"
| "getp v k = JUndefined"

text \<open>\<^verbatim>\<open>v?.k\<close>\<close>

definition opt_prop :: "jsval \<Rightarrow> string \<Rightarrow> jsval" where
  "opt_prop v k = (if nullish v then JUndefined else getp v k)"

text \<open>\<^verbatim>\<open>v[0]\<close> on a value that is not nullish.\<close>

fun index0 :: "jsval \<Rightarrow> jsval" where
  "index0 (JArr xs) = (case xs of [] \<Rightarrow> JUndefined | x # _ \<Rightarrow> x)"
| "index0 (JStr s) = (case s of [] \<Rightarrow> JUndefined | c # _ \<Rightarrow> JStr [c])"
| "index0 (JObj kvs) = getp (JObj kvs) ''0''"
| "index0 v = JUndefined"

text \<open>
  \<^verbatim>\<open>for (const block of v)\<close>: an array yields its elements, a string its characters,
  anything else is not iterable (TypeError).
\<close>

fun iterate :: "jsval \<Rightarrow> js_error + jsval list" where
  "iterate (JArr xs) = Inr xs"
| "iterate (JStr s) = Inr (map (\<lambda>c. JStr [c]) s)"
| "iterate v = Inl TypeError"

text \<open>
  \<^verbatim>\<open>v.slice(0, n)\<close> is callable on strings and arrays only; on any other value of
  this datatype the call raises a TypeError.
\<close>

fun has_slice :: "jsval \<Rightarrow> bool" where
  "has_slice (JStr s) = True"
| "has_slice (JArr xs) = True"
| "has_slice v = False"

subsection \<open>Strings of values\<close>

text \<open>
  Number::toString on an integer: the decimal digits, most significant first, after a
  minus sign for a negative number.
\<close>

definition digit_char :: "nat \<Rightarrow> char" where
  "digit_char d = char_of (48 + d)"

fun decimal :: "nat \<Rightarrow> string" where
  "decimal n =
     (if n div 10 = 0 then [digit_char n] else decimal (n div 10) @ [digit_char (n mod 10)])"

declare decimal.simps [simp del]

definition number_to_string :: "int \<Rightarrow> string" where
  "number_to_string i = (if 0 \<le> i then decimal (nat i) else CHR ''-'' # decimal (nat (- i)))"

fun join :: "string \<Rightarrow> string list \<Rightarrow> string" where
  "join sep [] = []"
| "join sep [x] = x"
| "join sep (x # y # ys) = x @ sep @ join sep (y # ys)"

text \<open>ToString: \<^verbatim>\<open>String(v)\<close> and \<^verbatim>\<open>`${v}`\<close>.\<close>

fun to_string :: "jsval \<Rightarrow> string" where
  "to_string JUndefined = ''undefined''"
| "to_string JNull = ''null''"
| "to_string (JBool b) = (if b then ''true'' else ''false'')"
| "to_string (JNum n) = number_to_string n"
| "to_string (JStr s) = s"
| "to_string (JArr xs) = join '','' (map (\<lambda>x. if nullish x then [] else to_string x) xs)"
| "to_string (JObj kvs) = ''[object Object]''"

subsection \<open>\<^verbatim>\<open>JSON.stringify\<close>\<close>

text \<open>
  QuoteJSONString: the double quote and the backslash are escaped, a control character
  below 0x20 is written as its two-character escape or as \<^verbatim>\<open>\u00XX\<close>.
\<close>

definition hex_digit :: "nat \<Rightarrow> char" where
  "hex_digit d = (if d < 10 then digit_char d else char_of (87 + d))"

definition bslash :: char where
  "bslash = CHR 0x5C"

definition dquote :: char where
  "dquote = CHR 0x22"

definition newline :: char where
  "newline = CHR 0x0A"

definition quote_char :: "char \<Rightarrow> string" where
  "quote_char c =
     (if c = dquote then [bslash, dquote]
      else if c = bslash then [bslash, bslash]
      else if c = CHR 0x08 then [bslash, CHR ''b'']
      else if c = CHR 0x0C then [bslash, CHR ''f'']
      else if c = CHR 0x0A then [bslash, CHR ''n'']
      else if c = CHR 0x0D then [bslash, CHR ''r'']
      else if c = CHR 0x09 then [bslash, CHR ''t'']
      else if (of_char c :: nat) < 32
        then [bslash, CHR ''u'', CHR ''0'', CHR ''0'',
              hex_digit (of_char c div 16), hex_digit (of_char c mod 16)]
      else [c])"

definition quote :: "string \<Rightarrow> string" where
  "quote s = [dquote] @ concat (map quote_char s) @ [dquote]"

text \<open>
  SerializeJSONArray and SerializeJSONObject, given the already serialised elements
  (members): \<open>gap\<close> is the indentation unit (empty for the compact form) and \<open>ind\<close> the
  indentation of the enclosing level.
\<close>

definition ser_array :: "string \<Rightarrow> string \<Rightarrow> string list \<Rightarrow> string" where
  "ser_array gap ind parts =
     (if parts = [] then ''[]''
      else if gap = [] then ''['' @ join '','' parts @ '']''
      else ''['' @ [newline] @ ind @ gap @ join ('','' @ [newline] @ ind @ gap) parts
             @ [newline] @ ind @ '']'')"

definition ser_object :: "string \<Rightarrow> string \<Rightarrow> string list \<Rightarrow> string" where
  "ser_object gap ind parts =
     (if parts = [] then ''{}''
      else if gap = [] then ''{'' @ join '','' parts @ ''}''
      else ''{'' @ [newline] @ ind @ gap @ join ('','' @ [newline] @ ind @ gap) parts
             @ [newline] @ ind @ ''}'')"

definition json_member :: "string \<Rightarrow> string \<Rightarrow> string \<Rightarrow> string" where
  "json_member gap k t = quote k @ '':'' @ (if gap = [] then [] else '' '') @ t"

text \<open>
  SerializeJSONProperty. \<open>None\<close> is the result \<^verbatim>\<open>undefined\<close>: an \<^verbatim>\<open>undefined\<close>
  element of an array is written \<^verbatim>\<open>null\<close>, an \<^verbatim>\<open>undefined\<close> property of an object
  is left out.
\<close>

fun serialize :: "string \<Rightarrow> string \<Rightarrow> jsval \<Rightarrow> string option" where
  "serialize gap ind JUndefined = None"
| "serialize gap ind JNull = Some ''null''"
| "serialize gap ind (JBool b) = Some (if b then ''true'' else ''false'')"
| "serialize gap ind (JNum n) = Some (number_to_string n)"
| "serialize gap ind (JStr s) = Some (quote s)"
| "serialize gap ind (JArr xs) =
     Some (ser_array gap ind
       (map (\<lambda>x. case serialize gap (ind @ gap) x of None \<Rightarrow> ''null'' | Some t \<Rightarrow> t) xs))"
| "serialize gap ind (JObj kvs) =
     Some (ser_object gap ind
       (concat (map (\<lambda>(k, v). case serialize gap (ind @ gap) v of
                                 None \<Rightarrow> [] | Some t \<Rightarrow> [json_member gap k t]) kvs)))"

text \<open>\<^verbatim>\<open>JSON.stringify(v)\<close> and \<^verbatim>\<open>JSON.stringify(v, null, 2)\<close>\<close>

definition JSON_stringify :: "jsval \<Rightarrow> string option" where
  "JSON_stringify v = serialize [] [] v"

definition JSON_stringify_2 :: "jsval \<Rightarrow> string option" where
  "JSON_stringify_2 v = serialize ''  '' [] v"

text \<open>\<^verbatim>\<open>JSON.stringify(v) + '\n'\<close>: string concatenation applies ToString to the left operand.\<close>

definition json_line :: "jsval \<Rightarrow> string" where
  "json_line v = (case JSON_stringify v of None \<Rightarrow> ''undefined'' | Some t \<Rightarrow> t) @ [newline]"

section \<open>Data model of the process manager\<close>

text \<open>
  The types of \<^verbatim>\<open>types.ts\<close> and of the process manager. Timestamps and the random
  \<^verbatim>\<open>id\<close> of an emitted entry are left out: they are fresh values of the clock and of
  \<^verbatim>\<open>randomUUID()\<close>, and no operation reads them back. The fields of an approval request
  are copied unvalidated from the parsed line, so they are JavaScript values; so are the
  request id, the edited input and the message of a response, which the route passes on
  from the request body. The behaviour of a response is \<^verbatim>\<open>'allow'\<close> or \<^verbatim>\<open>'deny'\<close>:
  the route refuses any other value and the manager's own calls pass \<^verbatim>\<open>'allow'\<close>.
\<close>

datatype ProcessState = Idle | Processing | AwaitingApproval | Finished | ErrorState

datatype PermissionMode = Assisted | FullAI

datatype Behavior = Allow | Deny

record WebChat =
  wc_id :: string
  wc_name :: string
  wc_cwd :: string
  wc_status :: string
  wc_pid :: "nat option"
  wc_session_id :: string

record Attachment =
  att_name :: string
  media_type :: string
  att_data :: string

record ApprovalRequest =
  request_id :: jsval
  rq_chat_id :: string
  tool_name :: jsval
  tool_use_id :: jsval
  input :: jsval
  suggestions :: jsval

record ApprovalResponse =
  rs_request_id :: jsval
  behavior :: Behavior
  updated_input :: jsval
  message :: jsval

text \<open>
  \<open>currentProcess\<close> and \<open>stdoutRL\<close> are references: the index of the child process (and
  of the readline interface on its stdout) in the manager's table of spawned processes.
  \<open>pendingApprovals\<close> is a \<^verbatim>\<open>Map\<close>: an association list in insertion order, whose
  keys are compared by equality (as the \<^verbatim>\<open>Map\<close> compares the strings the protocol uses
  for request ids). \<^verbatim>\<open>Map.set\<close> is \<open>AList.update\<close>, \<^verbatim>\<open>Map.get\<close> is \<open>map_of\<close> and
  \<^verbatim>\<open>Map.delete\<close> is \<open>AList.delete\<close>.
\<close>

record ManagedChat =
  chat :: WebChat
  sessionId :: string
  systemPrompt :: "string option"
  permissionMode :: PermissionMode
  isProcessing :: bool
  processState :: ProcessState
  messageCount :: nat
  currentProcess :: "nat option"
  stdoutRL :: "nat option"
  pendingApprovals :: "(jsval \<times> ApprovalRequest) list"
  autoApprove :: bool

text \<open>
  A spawned \<^verbatim>\<open>ChildProcess\<close> object: the fields the manager reads (\<^verbatim>\<open>killed\<close>,
  \<^verbatim>\<open>exitCode\<close>, \<^verbatim>\<open>stdin\<close>), \<^verbatim>\<open>signalCode\<close>, whether the readline interface on its
  stdout was closed, and the two variables its event handlers captured when
  \<^verbatim>\<open>sendMessage\<close> installed them: the \<^verbatim>\<open>managed\<close> object and the \<^verbatim>\<open>chatId\<close>.
\<close>

record ChildProcess =
  killed :: bool
  exitCode :: "int option"
  signalCode :: "string option"
  stdin :: bool
  rl_closed :: bool
  owner :: nat
  owner_chat :: string

text \<open>What the manager emits to its listeners (\<^verbatim>\<open>this.emit(...)\<close>).\<close>

datatype emitted =
    TranscriptEntry string string jsval
  | ChatStatus string string "ProcessState option" "string option"
  | ApprovalRequestEvent string ApprovalRequest

text \<open>
  What an operation does to the outside, in order: an emitted event, a line written to a
  child's stdin, a spawn (process, arguments, working directory), a signal sent, and the
  timer of \<^verbatim>\<open>sendMessage\<close> that writes the user message to the child's stdin a second
  after the spawn.
\<close>

datatype effect =
    Emit emitted
  | StdinWrite nat string
  | Spawn nat "string list" string
  | Kill nat string
  | StdinWriteLater nat string

text \<open>
  The manager: \<open>chats\<close> is the \<^verbatim>\<open>Map\<close> from chat id to \<^verbatim>\<open>ManagedChat\<close> object, \<open>objs\<close>
  the objects themselves (an event handler keeps the object it captured even after
  \<^verbatim>\<open>cleanup()\<close> has removed it from the map), \<open>procs\<close> the child processes spawned so
  far. \<open>upd r f\<close> assigns to the fields of object \<open>r\<close> and \<open>upd_proc p f\<close> to those of
  process \<open>p\<close>; every reference the manager holds points to an object that exists.
\<close>

record pm =
  chats :: "(string \<times> nat) list"
  objs :: "ManagedChat list"
  procs :: "ChildProcess list"

definition init :: pm where
  "init = \<lparr>chats = [], objs = [], procs = []\<rparr>"

definition upd :: "nat \<Rightarrow> (ManagedChat \<Rightarrow> ManagedChat) \<Rightarrow> pm \<Rightarrow> pm" where
  "upd r f s = s\<lparr>objs := (objs s)[r := f (objs s ! r)]\<rparr>"

definition upd_proc :: "nat \<Rightarrow> (ChildProcess \<Rightarrow> ChildProcess) \<Rightarrow> pm \<Rightarrow> pm" where
  "upd_proc p f s = s\<lparr>procs := (procs s)[p := f (procs s ! p)]\<rparr>"

text \<open>\<^verbatim>\<open>managed.stdoutRL?.close()\<close>\<close>

definition close_rl :: "nat option \<Rightarrow> pm \<Rightarrow> pm" where
  "close_rl rl s = (case rl of None \<Rightarrow> s | Some p \<Rightarrow> upd_proc p (\<lambda>c. c\<lparr>rl_closed := True\<rparr>) s)"

section \<open>respondToApproval\<close>

definition check_mark :: string where
  "check_mark = [CHR 0xE2, CHR 0x9C, CHR 0x85]"

definition cross_mark :: string where
  "cross_mark = [CHR 0xE2, CHR 0x9D, CHR 0x8C]"

definition behavior_string :: "Behavior \<Rightarrow> string" where
  "behavior_string b = (case b of Allow \<Rightarrow> ''allow'' | Deny \<Rightarrow> ''deny'')"

text \<open>The object literal \<^verbatim>\<open>controlResponse\<close> (lines 422 to 438).\<close>

definition controlResponse :: "ApprovalRequest \<Rightarrow> ApprovalResponse \<Rightarrow> jsval" where
  "controlResponse request response =
     JObj [(''type'', JStr ''control_response''),
           (''response'', JObj [
              (''subtype'', JStr ''success''),
              (''request_id'', rs_request_id response),
              (''response'',
                 (if behavior response = Allow
                  then JObj [(''behavior'', JStr ''allow''),
                             (''updatedInput'', js_or (updated_input response) (input request)),
                             (''toolUseID'', tool_use_id request)]
                  else JObj [(''behavior'', JStr ''deny''),
                             (''message'', js_or (message response)
                                             (JStr ''User denied this action''))]))])]"

definition approval_log :: "string \<Rightarrow> ApprovalRequest \<Rightarrow> ApprovalResponse \<Rightarrow> emitted" where
  "approval_log chatId request response =
     TranscriptEntry chatId ''log_event''
       (JObj [(''type'', JStr ''log_event''),
              (''event_type'', JStr ''approval_response''),
              (''message'', JStr ((if behavior response = Allow then check_mark else cross_mark)
                 @ '' '' @ to_string (tool_name request) @ '': ''
                 @ behavior_string (behavior response)))])"

definition respondToApproval :: "string \<Rightarrow> ApprovalResponse \<Rightarrow> pm \<Rightarrow> bool \<times> pm \<times> effect list" where
  "respondToApproval chatId response s =
     (case map_of (chats s) chatId of
        None \<Rightarrow> (False, s, [])
      | Some r \<Rightarrow>
         (case map_of (pendingApprovals (objs s ! r)) (rs_request_id response) of
            None \<Rightarrow> (False, s, [])
          | Some request \<Rightarrow>
             (case currentProcess (objs s ! r) of
                None \<Rightarrow> (False, s, [])
              | Some p \<Rightarrow>
                 if \<not> stdin (procs s ! p) then (False, s, [])
                 else
                   (True,
                    upd r (\<lambda>m. m\<lparr>pendingApprovals :=
                                    AList.delete (rs_request_id response) (pendingApprovals m),
                                  processState := Processing\<rparr>) s,
                    [StdinWrite p (json_line (controlResponse request response)),
                     Emit (ChatStatus chatId ''running'' (Some Processing) None),
                     Emit (approval_log chatId request response)]))))"

section \<open>handleControlRequest\<close>

text \<open>
  The functions that run inside the \<^verbatim>\<open>try\<close> of \<^verbatim>\<open>handleStreamLine\<close> return, with
  the state and the effects reached so far, the exception that stopped them if there is
  one: what was done before a throw stays done.

  \<^verbatim>\<open>JSON.stringify(request.input, null, 2)\<close> is \<^verbatim>\<open>undefined\<close> when the request
  carries no input, and reading \<^verbatim>\<open>.length\<close> of it raises a TypeError: by then the
  request is stored and the status event emitted, the two approval events are not.
\<close>

definition auto_approval_log :: "string \<Rightarrow> ApprovalRequest \<Rightarrow> emitted" where
  "auto_approval_log chatId request =
     TranscriptEntry chatId ''log_event''
       (JObj [(''type'', JStr ''log_event''),
              (''event_type'', JStr ''auto_approval''),
              (''message'', JStr (''AUTO-APPROVED: '' @ to_string (tool_name request)))])"

definition approval_prompt :: "string \<Rightarrow> jsval \<Rightarrow> ApprovalRequest \<Rightarrow> string \<Rightarrow> emitted" where
  "approval_prompt chatId rid request inputPreview =
     TranscriptEntry chatId ''approval_prompt''
       (JObj [(''type'', JStr ''approval_prompt''),
              (''request_id'', rid),
              (''tool_name'', tool_name request),
              (''tool_use_id'', tool_use_id request),
              (''input'', input request),
              (''input_preview'', JStr inputPreview)])"

definition handleControlRequest ::
  "jsval \<Rightarrow> nat \<Rightarrow> string \<Rightarrow> pm \<Rightarrow> js_error option \<times> pm \<times> effect list" where
  "handleControlRequest msg managed chatId s =
     (if opt_prop (getp msg ''request'') ''subtype'' \<noteq> JStr ''can_use_tool'' then (None, s, [])
      else
        let rq = getp msg ''request'';
            rid = getp msg ''request_id'';
            request = \<lparr>request_id = rid, rq_chat_id = chatId,
                       tool_name = getp rq ''tool_name'', tool_use_id = getp rq ''tool_use_id'',
                       input = getp rq ''input'',
                       suggestions = getp rq ''permission_suggestions''\<rparr>
        in
          if autoApprove (objs s ! managed) then
            (case respondToApproval chatId
                    \<lparr>rs_request_id = rid, behavior = Allow,
                     updated_input = JUndefined, message = JUndefined\<rparr>
                    (upd managed (\<lambda>m. m\<lparr>pendingApprovals :=
                                            AList.update rid request (pendingApprovals m)\<rparr>) s) of
               (ok, s', effs) \<Rightarrow> (None, s', effs @ [Emit (auto_approval_log chatId request)]))
          else
            let s1 = upd managed (\<lambda>m. m\<lparr>pendingApprovals :=
                                           AList.update rid request (pendingApprovals m),
                                         processState := AwaitingApproval\<rparr>) s;
                effs1 = [Emit (ChatStatus chatId ''running'' (Some AwaitingApproval) None)]
            in
              (case JSON_stringify_2 (input request) of
                 None \<Rightarrow> (Some TypeError, s1, effs1)
               | Some t \<Rightarrow>
                  (None, s1,
                   effs1 @
                   [Emit (ApprovalRequestEvent chatId request),
                    Emit (approval_prompt chatId rid request
                            (if length t > 500 then take 500 t @ ''...'' else t))])))"

section \<open>handleStreamLine\<close>

text \<open>
  The loop over the content blocks of an assistant message. A block that is \<^verbatim>\<open>null\<close>
  raises on \<^verbatim>\<open>block.type\<close>, a text block whose \<^verbatim>\<open>text\<close> has no \<^verbatim>\<open>slice\<close> raises in
  the log line before its event is emitted; the entries of the blocks before it are
  already emitted.
\<close>

definition assistant_entry :: "string \<Rightarrow> jsval \<Rightarrow> emitted" where
  "assistant_entry chatId block =
     TranscriptEntry chatId ''assistant''
       (JObj [(''type'', JStr ''assistant''), (''text'', getp block ''text'')])"

definition tool_use_entry :: "string \<Rightarrow> jsval \<Rightarrow> emitted" where
  "tool_use_entry chatId block =
     TranscriptEntry chatId ''tool_use''
       (JObj [(''type'', JStr ''tool_use''),
              (''tool_name'', getp block ''name''),
              (''tool_id'', getp block ''id''),
              (''input'', getp block ''input'')])"

fun assistant_blocks :: "string \<Rightarrow> jsval list \<Rightarrow> js_error option \<times> effect list" where
  "assistant_blocks chatId [] = (None, [])"
| "assistant_blocks chatId (block # blocks) =
     (if nullish block then (Some TypeError, [])
      else if getp block ''type'' = JStr ''text'' then
        (if has_slice (getp block ''text'') then
           (case assistant_blocks chatId blocks of
              (e, effs) \<Rightarrow> (e, Emit (assistant_entry chatId block) # effs))
         else (Some TypeError, []))
      else if getp block ''type'' = JStr ''tool_use'' then
        (case assistant_blocks chatId blocks of
           (e, effs) \<Rightarrow> (e, Emit (tool_use_entry chatId block) # effs))
      else assistant_blocks chatId blocks)"

text \<open>\<^verbatim>\<open>if (msg.type === 'assistant' && msg.message?.content) { for ... }\<close>\<close>

definition assistant_part :: "jsval \<Rightarrow> string \<Rightarrow> js_error option \<times> effect list" where
  "assistant_part msg chatId =
     (if getp msg ''type'' = JStr ''assistant''
         \<and> truthy (opt_prop (getp msg ''message'') ''content'') then
        (case iterate (getp (getp msg ''message'') ''content'') of
           Inl e \<Rightarrow> (Some e, [])
         | Inr blocks \<Rightarrow> assistant_blocks chatId blocks)
      else (None, []))"

definition tool_result_entry :: "string \<Rightarrow> jsval \<Rightarrow> emitted" where
  "tool_result_entry chatId content =
     TranscriptEntry chatId ''tool_result''
       (JObj [(''type'', JStr ''tool_result''),
              (''tool_id'', js_or (getp content ''tool_use_id'') (JStr [])),
              (''output'', JStr (take 100 (to_string (js_or (getp content ''content'') (JStr []))))),
              (''is_error'', getp content ''is_error'')])"

text \<open>\<^verbatim>\<open>if (msg.type === 'user' && msg.message?.content) { const content = msg.message.content[0] ... }\<close>\<close>

definition user_part :: "jsval \<Rightarrow> string \<Rightarrow> effect list" where
  "user_part msg chatId =
     (if getp msg ''type'' = JStr ''user''
         \<and> truthy (opt_prop (getp msg ''message'') ''content'') then
        (let content = index0 (getp (getp msg ''message'') ''content'') in
           if opt_prop content ''type'' = JStr ''tool_result''
           then [Emit (tool_result_entry chatId content)] else [])
      else [])"

text \<open>
  \<open>parsed\<close> is the outcome of \<^verbatim>\<open>JSON.parse(line)\<close>: \<open>None\<close> when it raises a
  SyntaxError. \<open>managed\<close> and \<open>chatId\<close> are the arguments the line handler passes. The
  \<^verbatim>\<open>catch\<close> swallows every exception, so the function itself has no error result.
\<close>

definition handleStreamLine :: "jsval option \<Rightarrow> nat \<Rightarrow> string \<Rightarrow> pm \<Rightarrow> pm \<times> effect list" where
  "handleStreamLine parsed managed chatId s =
     (case parsed of
        None \<Rightarrow> (s, [])
      | Some msg \<Rightarrow>
         if nullish msg then (s, [])
         else if getp msg ''type'' = JStr ''system'' \<and> getp msg ''subtype'' = JStr ''init''
           then (s, [])
         else if getp msg ''type'' = JStr ''control_request'' then
           (case handleControlRequest msg managed chatId s of (e, s', effs) \<Rightarrow> (s', effs))
         else
           (case assistant_part msg chatId of
              (Some e, effs) \<Rightarrow> (s, effs)
            | (None, effs) \<Rightarrow>
               if getp msg ''type'' = JStr ''result'' then
                 (upd managed (\<lambda>m. m\<lparr>isProcessing := False, processState := Idle\<rparr>) s,
                  effs @ user_part msg chatId
                    @ [Emit (ChatStatus chatId ''ready'' (Some Idle) None)])
               else (s, effs @ user_part msg chatId)))"


section \<open>createChat and sendMessage\<close>

text \<open>
  \<open>cid\<close> and \<open>fresh\<close> are the two values \<^verbatim>\<open>randomUUID()\<close> returns (the first cut to
  eight characters). An optional string parameter is present when it is a non-empty
  string: \<^verbatim>\<open>name || ...\<close>, \<^verbatim>\<open>existingSessionId || ...\<close> and \<^verbatim>\<open>!!existingSessionId\<close> all
  treat the empty string as absent.
\<close>

definition given :: "string option \<Rightarrow> bool" where
  "given x = (case x of None \<Rightarrow> False | Some v \<Rightarrow> v \<noteq> [])"

text \<open>\<^verbatim>\<open>x || d\<close> on an optional string.\<close>

definition or_else :: "string option \<Rightarrow> string \<Rightarrow> string" where
  "or_else x d = (case x of None \<Rightarrow> d | Some v \<Rightarrow> if v \<noteq> [] then v else d)"

definition createChat ::
  "string \<Rightarrow> string \<Rightarrow> string \<Rightarrow> string option \<Rightarrow> string option \<Rightarrow> string option \<Rightarrow> PermissionMode
     \<Rightarrow> pm \<Rightarrow> WebChat \<times> pm \<times> effect list" where
  "createChat cid fresh cwd name sysPrompt existingSessionId permMode s =
     (let sid = or_else existingSessionId fresh;
          isResume = given existingSessionId;
          chatName = or_else name (''Chat '' @ cid);
          c = \<lparr>wc_id = cid, wc_name = chatName, wc_cwd = cwd, wc_status = ''running'',
               wc_pid = None, wc_session_id = sid\<rparr>;
          managed = \<lparr>chat = c, sessionId = sid, systemPrompt = sysPrompt,
                     permissionMode = permMode, isProcessing = False, processState = Idle,
                     messageCount = (if isResume then 1 else 0),
                     currentProcess = None, stdoutRL = None,
                     pendingApprovals = [], autoApprove = False\<rparr>
      in (c,
          s\<lparr>chats := AList.update cid (length (objs s)) (chats s), objs := objs s @ [managed]\<rparr>,
          [Emit (ChatStatus cid ''running'' None None)]))"

text \<open>The argument list of the spawn (lines 128 to 151).\<close>

definition spawn_args :: "ManagedChat \<Rightarrow> string list" where
  "spawn_args managed =
     [''-p'', ''--verbose'', ''--output-format'', ''stream-json'',
      ''--input-format'', ''stream-json'', ''--max-turns'', ''50'']
     @ (if permissionMode managed = FullAI then [''--dangerously-skip-permissions'']
        else [''--permission-mode'', ''default'', ''--permission-prompt-tool'', ''stdio''])
     @ (if messageCount managed = 0 then
          [''--session-id'', sessionId managed]
          @ (case systemPrompt managed of
               None \<Rightarrow> []
             | Some sp \<Rightarrow> if sp \<noteq> [] then [''--append-system-prompt'', sp] else [])
        else [''--resume'', sessionId managed])"

text \<open>The user message the timer writes (lines 201 to 230).\<close>

definition image_block :: "Attachment \<Rightarrow> jsval" where
  "image_block att =
     JObj [(''type'', JStr ''image''),
           (''source'', JObj [(''type'', JStr ''base64''),
                              (''media_type'', JStr (media_type att)),
                              (''data'', JStr (att_data att))])]"

definition user_message :: "string \<Rightarrow> Attachment list option \<Rightarrow> jsval" where
  "user_message msg attachments =
     JObj [(''type'', JStr ''user''),
           (''message'', JObj [
              (''role'', JStr ''user''),
              (''content'',
                 (case attachments of
                    None \<Rightarrow> JStr msg
                  | Some atts \<Rightarrow>
                     if length atts > 0 then
                       JArr (map image_block atts
                             @ (if msg \<noteq> [] then [JObj [(''type'', JStr ''text''), (''text'', JStr msg)]]
                                else []))
                     else JStr msg))])]"

text \<open>
  The stale test of line 107: the flag is set and the process object is absent, was sent a
  signal, or has an exit code.
\<close>

definition stale :: "pm \<Rightarrow> ManagedChat \<Rightarrow> bool" where
  "stale s managed =
     (isProcessing managed \<and>
      (case currentProcess managed of
         None \<Rightarrow> True
       | Some p \<Rightarrow> killed (procs s ! p) \<or> exitCode (procs s ! p) \<noteq> None))"

definition new_process :: "nat \<Rightarrow> string \<Rightarrow> ChildProcess" where
  "new_process r chatId =
     \<lparr>killed = False, exitCode = None, signalCode = None, stdin = True, rl_closed = False,
      owner = r, owner_chat = chatId\<rparr>"

definition sendMessage ::
  "string \<Rightarrow> string \<Rightarrow> Attachment list option \<Rightarrow> pm \<Rightarrow> bool \<times> pm \<times> effect list" where
  "sendMessage chatId msg attachments s =
     (case map_of (chats s) chatId of
        None \<Rightarrow> (False, s, [])
      | Some r \<Rightarrow>
         let s1 = (if stale s (objs s ! r)
                   then upd r (\<lambda>m. m\<lparr>isProcessing := False, processState := Idle\<rparr>) s else s)
         in
           if isProcessing (objs s1 ! r) then (False, s1, [])
           else
             let args = spawn_args (objs s1 ! r);
                 p = length (procs s1);
                 s2 = upd r (\<lambda>m. m\<lparr>isProcessing := True, processState := Processing,
                                     messageCount := messageCount m + 1,
                                     currentProcess := Some p, stdoutRL := Some p,
                                     chat := (chat m)\<lparr>wc_pid := Some p\<rparr>\<rparr>) s1
             in (True,
                 s2\<lparr>procs := procs s2 @ [new_process r chatId]\<rparr>,
                 [Emit (ChatStatus chatId ''running'' (Some Processing) None),
                  Spawn p args (wc_cwd (chat (objs s1 ! r))),
                  StdinWriteLater p (json_line (user_message msg attachments))]))"

section \<open>Process events\<close>

text \<open>
  The runtime sets \<^verbatim>\<open>exitCode\<close> or \<^verbatim>\<open>signalCode\<close> of the process object and then runs
  the \<^verbatim>\<open>'exit'\<close> handler (lines 183 to 190), which works on the \<^verbatim>\<open>managed\<close> object it
  captured.
\<close>

definition on_exit :: "nat \<Rightarrow> int option \<Rightarrow> string option \<Rightarrow> pm \<Rightarrow> pm \<times> effect list" where
  "on_exit p code signal s =
     (if p < length (procs s) then
        let r = owner (procs s ! p);
            s1 = upd_proc p (\<lambda>c. c\<lparr>exitCode := code, signalCode := signal\<rparr>) s;
            s2 = upd r (\<lambda>m. m\<lparr>isProcessing := False, processState := Finished,
                               currentProcess := None\<rparr>) s1;
            s3 = close_rl (stdoutRL (objs s2 ! r)) s2
        in (s3, [Emit (ChatStatus (owner_chat (procs s ! p)) ''ready'' (Some Finished) None)])
      else (s, []))"

text \<open>The \<^verbatim>\<open>'error'\<close> handler (lines 192 to 198); \<open>err\<close> is \<^verbatim>\<open>err.message\<close>.\<close>

definition on_error :: "nat \<Rightarrow> string \<Rightarrow> pm \<Rightarrow> pm \<times> effect list" where
  "on_error p err s =
     (if p < length (procs s) then
        let r = owner (procs s ! p);
            s1 = upd r (\<lambda>m. m\<lparr>isProcessing := False, processState := ErrorState,
                               currentProcess := None\<rparr>) s
        in (s1, [Emit (ChatStatus (owner_chat (procs s ! p)) ''error'' (Some ErrorState) (Some err))])
      else (s, []))"

text \<open>
  The \<^verbatim>\<open>'line'\<close> handler of the readline interface on the stdout of process \<open>p\<close>
  (lines 170 to 172). An interface that was closed delivers no further line.
\<close>

definition on_line :: "nat \<Rightarrow> jsval option \<Rightarrow> pm \<Rightarrow> pm \<times> effect list" where
  "on_line p parsed s =
     (if p < length (procs s) \<and> \<not> rl_closed (procs s ! p)
      then handleStreamLine parsed (owner (procs s ! p)) (owner_chat (procs s ! p)) s
      else (s, []))"

section \<open>setAutoApprove, stopChat, cleanup\<close>

text \<open>
  The loop of \<^verbatim>\<open>setAutoApprove\<close> over the keys of \<^verbatim>\<open>pendingApprovals\<close>. The loop body
  deletes at most the entry it is visiting, so the iterator visits every key the map had
  when the loop started.
\<close>

fun approve_all :: "string \<Rightarrow> jsval list \<Rightarrow> pm \<Rightarrow> pm \<times> effect list" where
  "approve_all chatId [] s = (s, [])"
| "approve_all chatId (requestId # ks) s =
     (case respondToApproval chatId
             \<lparr>rs_request_id = requestId, behavior = Allow,
              updated_input = JUndefined, message = JUndefined\<rparr> s of
        (ok, s1, effs1) \<Rightarrow>
          (case approve_all chatId ks s1 of (s2, effs2) \<Rightarrow> (s2, effs1 @ effs2)))"

definition setAutoApprove :: "string \<Rightarrow> bool \<Rightarrow> pm \<Rightarrow> bool \<times> pm \<times> effect list" where
  "setAutoApprove chatId enabled s =
     (case map_of (chats s) chatId of
        None \<Rightarrow> (False, s, [])
      | Some r \<Rightarrow>
         let s1 = upd r (\<lambda>m. m\<lparr>autoApprove := enabled\<rparr>) s in
           if enabled \<and> length (pendingApprovals (objs s1 ! r)) > 0 then
             (case approve_all chatId (map fst (pendingApprovals (objs s1 ! r))) s1 of
                (s2, effs) \<Rightarrow> (True, s2, effs))
           else (True, s1, []))"

text \<open>
  \<^verbatim>\<open>kill('SIGTERM')\<close> sets \<^verbatim>\<open>killed\<close> when the signal could be sent, that is when the
  process has not exited.
\<close>

definition stopChat :: "string \<Rightarrow> pm \<Rightarrow> bool \<times> pm \<times> effect list" where
  "stopChat chatId s =
     (case map_of (chats s) chatId of
        None \<Rightarrow> (False, s, [])
      | Some r \<Rightarrow>
         let sig = (case currentProcess (objs s ! r) of
                      None \<Rightarrow> None
                    | Some p \<Rightarrow> if \<not> killed (procs s ! p) then Some p else None);
             s1 = (case sig of
                     None \<Rightarrow> s
                   | Some p \<Rightarrow>
                       upd_proc p (\<lambda>c. if exitCode c = None \<and> signalCode c = None
                                       then c\<lparr>killed := True\<rparr> else c) s);
             s2 = close_rl (stdoutRL (objs s1 ! r)) s1;
             s3 = upd r (\<lambda>m. m\<lparr>chat := (chat m)\<lparr>wc_status := ''stopped''\<rparr>\<rparr>) s2
         in (True, s3,
             (case sig of None \<Rightarrow> [] | Some p \<Rightarrow> [Kill p ''SIGTERM''])
             @ [Emit (ChatStatus chatId ''stopped'' None None)]))"

fun cleanup_loop :: "(string \<times> nat) list \<Rightarrow> pm \<Rightarrow> nat \<times> pm" where
  "cleanup_loop [] s = (0, s)"
| "cleanup_loop ((cid, r) # rest) s =
     (if wc_status (chat (objs s ! r)) = ''stopped'' \<or> wc_status (chat (objs s ! r)) = ''error''
      then (case cleanup_loop rest
                   ((close_rl (stdoutRL (objs s ! r)) s)\<lparr>chats := AList.delete cid (chats s)\<rparr>) of
              (n, s') \<Rightarrow> (n + 1, s'))
      else cleanup_loop rest s)"

definition cleanup :: "pm \<Rightarrow> nat \<times> pm" where
  "cleanup s = cleanup_loop (chats s) s"

section \<open>Runs of the manager\<close>

text \<open>
  Everything that can happen to a manager: a call of its interface, or an event of one of
  the processes it spawned (a line on stdout, the exit, an error). \<open>run\<close> applies a
  sequence of them and collects the effects in order.
\<close>

datatype event =
    CreateChat string string string "string option" "string option" "string option" PermissionMode
  | SendMessage string string "Attachment list option"
  | RespondToApproval string ApprovalResponse
  | SetAutoApprove string bool
  | StopChat string
  | Cleanup
  | Line nat "jsval option"
  | Exit nat "int option" "string option"
  | Error nat string

fun step :: "event \<Rightarrow> pm \<Rightarrow> pm \<times> effect list" where
  "step (CreateChat cid fresh cwd name sp ex pmode) s =
     (case createChat cid fresh cwd name sp ex pmode s of (c, s', effs) \<Rightarrow> (s', effs))"
| "step (SendMessage chatId msg atts) s =
     (case sendMessage chatId msg atts s of (ok, s', effs) \<Rightarrow> (s', effs))"
| "step (RespondToApproval chatId response) s =
     (case respondToApproval chatId response s of (ok, s', effs) \<Rightarrow> (s', effs))"
| "step (SetAutoApprove chatId enabled) s =
     (case setAutoApprove chatId enabled s of (ok, s', effs) \<Rightarrow> (s', effs))"
| "step (StopChat chatId) s =
     (case stopChat chatId s of (ok, s', effs) \<Rightarrow> (s', effs))"
| "step Cleanup s = (snd (cleanup s), [])"
| "step (Line p parsed) s = on_line p parsed s"
| "step (Exit p code signal) s = on_exit p code signal s"
| "step (Error p err) s = on_error p err s"

fun run :: "event list \<Rightarrow> pm \<Rightarrow> pm \<times> effect list" where
  "run [] s = (s, [])"
| "run (e # es) s =
     (case step e s of (s1, effs1) \<Rightarrow> (case run es s1 of (s2, effs2) \<Rightarrow> (s2, effs1 @ effs2)))"

section \<open>Tool uses in the transcript route\<close>

text \<open>
  The route that rebuilds a session's history from its JSONL transcript
  (\<^verbatim>\<open>routes/sessions.ts\<close>, lines 391 to 429) maps each \<^verbatim>\<open>tool_use\<close> block of an
  assistant entry as follows; \<open>fresh\<close> is the random id given to a block that has none.
\<close>

definition session_tool_entry :: "string \<Rightarrow> jsval \<Rightarrow> string \<times> jsval" where
  "session_tool_entry fresh tool =
     (if getp tool ''name'' = JStr ''Task'' then
        (''agent_spawn'',
         JObj [(''type'', JStr ''agent_spawn''),
               (''agent_type'', js_or (opt_prop (getp tool ''input'') ''subagent_type'') (JStr ''unknown'')),
               (''description'', js_or (opt_prop (getp tool ''input'') ''description'') (JStr [])),
               (''prompt_preview'', opt_prop (getp tool ''input'') ''prompt''),
               (''tool_use_id'', getp tool ''id''),
               (''agent_id'', JUndefined),
               (''status'', JStr ''running''),
               (''result_preview'', JUndefined)])
      else
        (''tool_use'',
         JObj [(''type'', JStr ''tool_use''),
               (''tool_name'', getp tool ''name''),
               (''tool_id'', js_or (getp tool ''id'') (JStr fresh)),
               (''input'', getp tool ''input'')]))"

section \<open>Sample inputs\<close>

text \<open>
  Concrete lines, responses and runs on which the theorems below are evaluated: a
  \<^verbatim>\<open>can_use_tool\<close> control request as the child writes it, the caller's decisions, and
  the run in which a chat receives two approval requests during its first turn.
\<close>

definition can_use_tool_line :: "string \<Rightarrow> string \<Rightarrow> jsval" where
  "can_use_tool_line rid tool =
     JObj [(''type'', JStr ''control_request''), (''request_id'', JStr rid),
           (''request'', JObj [(''subtype'', JStr ''can_use_tool''), (''tool_name'', JStr tool),
              (''tool_use_id'', JStr (''toolu_'' @ rid)),
              (''input'', JObj [(''command'', JStr ''ls /tmp'')])])]"

definition awaiting_two :: "event list" where
  "awaiting_two =
     [CreateChat ''c1'' ''sess-1'' ''/tmp'' None None None Assisted,
      SendMessage ''c1'' ''list files in /tmp'' None,
      Line 0 (Some (can_use_tool_line ''r1'' ''Bash'')),
      Line 0 (Some (can_use_tool_line ''r2'' ''Read''))]"

definition allow :: "string \<Rightarrow> ApprovalResponse" where
  "allow rid = \<lparr>rs_request_id = JStr rid, behavior = Allow,
                updated_input = JUndefined, message = JUndefined\<rparr>"

definition deny :: "string \<Rightarrow> jsval \<Rightarrow> ApprovalResponse" where
  "deny rid msg = \<lparr>rs_request_id = JStr rid, behavior = Deny,
                   updated_input = JUndefined, message = msg\<rparr>"

text \<open>A chat whose first turn has ended with a \<^verbatim>\<open>result\<close> line; its child has not exited.\<close>

definition first_turn_done :: "event list" where
  "first_turn_done =
     [CreateChat ''c1'' ''sess-1'' ''/tmp'' None (Some ''Be brief.'') None Assisted,
      SendMessage ''c1'' ''first'' None,
      Line 0 (Some (JObj [(''type'', JStr ''result''), (''subtype'', JStr ''success'')]))]"






definition task_block :: jsval where
  "task_block =
     JObj [(''type'', JStr ''tool_use''), (''id'', JStr ''t7''), (''name'', JStr ''Task''),
           (''input'', JObj [(''subagent_type'', JStr ''reviewer''),
                             (''description'', JStr ''Review the diff''),
                             (''prompt'', JStr ''Look at the last commit.'')])]"

definition task_line :: jsval where
  "task_line =
     JObj [(''type'', JStr ''assistant''),
           (''message'', JObj [(''role'', JStr ''assistant''), (''content'', JArr [task_block])])]"

section \<open>Predicates of the statements\<close>

text \<open>
  \<open>same_turn s s'\<close>: between \<open>s\<close> and \<open>s'\<close> no chat was added or removed, no process was
  spawned or changed, and no chat's \<^verbatim>\<open>isProcessing\<close> flag or process handle changed.
\<close>

definition same_turn :: "pm \<Rightarrow> pm \<Rightarrow> bool" where
  "same_turn s s' =
     (chats s' = chats s \<and> procs s' = procs s
      \<and> map isProcessing (objs s') = map isProcessing (objs s)
      \<and> map currentProcess (objs s') = map currentProcess (objs s))"

text \<open>
  The events that leave a turn in progress: a stdout line other than a \<^verbatim>\<open>result\<close>
  line, an approval decision, a change of the auto-approve flag.
\<close>

fun turn_event :: "event \<Rightarrow> bool" where
  "turn_event (Line p None) = True"
| "turn_event (Line p (Some msg)) = (getp msg ''type'' \<noteq> JStr ''result'')"
| "turn_event (RespondToApproval chatId response) = True"
| "turn_event (SetAutoApprove chatId enabled) = True"
| "turn_event e = False"

text \<open>A chat whose state is \<^verbatim>\<open>awaiting_approval\<close> has a pending request.\<close>

definition awaiting_has_pending :: "ManagedChat \<Rightarrow> bool" where
  "awaiting_has_pending m = (processState m = AwaitingApproval \<longrightarrow> pendingApprovals m \<noteq> [])"



text \<open>
  One pass of the loop over the content blocks of an assistant message: whether the block
  makes the loop raise, and the entry it emits otherwise.
\<close>

definition block_raises :: "jsval \<Rightarrow> bool" where
  "block_raises block =
     (nullish block \<or> (getp block ''type'' = JStr ''text'' \<and> \<not> has_slice (getp block ''text'')))"

definition block_entry :: "string \<Rightarrow> jsval \<Rightarrow> emitted option" where
  "block_entry chatId block =
     (if getp block ''type'' = JStr ''text'' then Some (assistant_entry chatId block)
      else if getp block ''type'' = JStr ''tool_use'' then Some (tool_use_entry chatId block)
      else None)"

text \<open>
  A well-formed manager state: every chat id maps to an object that exists, every process
  was spawned for an object that exists, and the keys of every \<^verbatim>\<open>pendingApprovals\<close> map
  are distinct. Every state the manager reaches is well formed.
\<close>

definition well_formed :: "pm \<Rightarrow> bool" where
  "well_formed s =
     (list_all (\<lambda>(cid, r). r < length (objs s)) (chats s)
      \<and> list_all (\<lambda>c. owner c < length (objs s)) (procs s)
      \<and> list_all (\<lambda>m. distinct (map fst (pendingApprovals m))) (objs s))"




section \<open>The serialised text has no line break\<close>

lemma char_of_not_newline: "10 < k \<Longrightarrow> k < 256 \<Longrightarrow> char_of (k::nat) \<noteq> newline"
proof
  assume k: "10 < k" "k < 256" and eq: "char_of k = newline"
  have "(of_char (char_of k) :: nat) = of_char newline" using eq by simp
  then have "k mod 256 = 10" by (simp add: newline_def)
  with k show False by simp
qed

lemma digit_char_no_newline: "d < 10 \<Longrightarrow> digit_char d \<noteq> newline"
  unfolding digit_char_def by (intro char_of_not_newline) auto

lemma decimal_no_newline: "newline \<notin> set (decimal n)"
proof (induction n rule: decimal.induct)
  case (1 n)
  show ?case
  proof (cases "n div 10 = 0")
    case True
    then have "n < 10" by simp
    then have "digit_char n \<noteq> newline" by (rule digit_char_no_newline)
    with True show ?thesis by (subst decimal.simps) auto
  next
    case False
    have "digit_char (n mod 10) \<noteq> newline" by (rule digit_char_no_newline) simp
    with 1 False show ?thesis by (subst decimal.simps) auto
  qed
qed

lemma newline_not_literal:
  "newline \<notin> set ''-''" "newline \<notin> set ''null''" "newline \<notin> set ''true''"
  "newline \<notin> set ''false''" "newline \<notin> set '',''" "newline \<notin> set ''[]''"
  "newline \<notin> set ''{}''" "newline \<notin> set ''[''" "newline \<notin> set '']''"
  "newline \<notin> set ''{''" "newline \<notin> set ''}''" "newline \<notin> set '':''"
  "newline \<noteq> dquote" "newline \<noteq> bslash" "newline \<notin> set ''bfnrtu0''"
  by (simp_all add: newline_def dquote_def bslash_def)

lemma number_to_string_no_newline: "newline \<notin> set (number_to_string i)"
  using newline_not_literal(1) by (simp add: number_to_string_def decimal_no_newline)

lemma hex_digit_no_newline: "d < 16 \<Longrightarrow> hex_digit d \<noteq> newline"
proof (cases "d < 10")
  case True
  then show ?thesis by (simp add: hex_digit_def digit_char_no_newline)
next
  case False
  assume "d < 16"
  then have "char_of (87 + d) \<noteq> newline" by (intro char_of_not_newline) auto
  with False show ?thesis by (simp add: hex_digit_def)
qed

lemma quote_char_no_newline: "newline \<notin> set (quote_char c)"
proof -
  have a: "(of_char c :: nat) < 32 \<Longrightarrow> hex_digit (of_char c div 16) \<noteq> newline"
    by (rule hex_digit_no_newline) simp
  have b: "hex_digit (of_char c mod 16) \<noteq> newline"
    by (rule hex_digit_no_newline) simp
  have c: "c \<noteq> CHR 0x0A \<Longrightarrow> newline \<noteq> c" by (simp add: newline_def)
  show ?thesis
    unfolding quote_char_def using a b c newline_not_literal(13-15)
    by (simp add: eq_commute[of newline])
qed

lemma quote_no_newline: "newline \<notin> set (quote s)"
  unfolding quote_def using quote_char_no_newline newline_not_literal(13) by auto

lemma join_no_newline:
  "newline \<notin> set sep \<Longrightarrow> (\<And>x. x \<in> set parts \<Longrightarrow> newline \<notin> set x) \<Longrightarrow> newline \<notin> set (join sep parts)"
  by (induction sep parts rule: join.induct) auto

lemma ser_array_no_newline:
  "\<forall>x\<in>set parts. newline \<notin> set x \<Longrightarrow> newline \<notin> set (ser_array [] ind parts)"
  using join_no_newline[of "'',''" parts] newline_not_literal
  by (simp add: ser_array_def)

lemma ser_object_no_newline:
  "\<forall>x\<in>set parts. newline \<notin> set x \<Longrightarrow> newline \<notin> set (ser_object [] ind parts)"
  using join_no_newline[of "'',''" parts] newline_not_literal
  by (simp add: ser_object_def)

lemma json_member_no_newline: "newline \<notin> set t \<Longrightarrow> newline \<notin> set (json_member [] k t)"
  using quote_no_newline[of k] newline_not_literal by (simp add: json_member_def)

lemma serialize_compact_no_newline:
  "serialize [] ind v = Some t \<Longrightarrow> newline \<notin> set t"
proof (induction "[] :: string" ind v arbitrary: t rule: serialize.induct)
  case (6 ind xs)
  let ?parts = "map (\<lambda>x. case serialize [] (ind @ []) x of None \<Rightarrow> ''null'' | Some t \<Rightarrow> t) xs"
  have "\<forall>x\<in>set ?parts. newline \<notin> set x"
    using 6(1) newline_not_literal(2) by (auto split: option.splits)
  then have "newline \<notin> set (ser_array [] ind ?parts)" by (rule ser_array_no_newline)
  with 6(2) show ?case by auto
next
  case (7 ind kvs)
  let ?parts = "concat (map (\<lambda>(k, v). case serialize [] (ind @ []) v of None \<Rightarrow> [] | Some t \<Rightarrow> [json_member [] k t]) kvs)"
  have "\<forall>x\<in>set ?parts. newline \<notin> set x"
    using 7(1) json_member_no_newline by (fastforce split: option.splits)
  then have "newline \<notin> set (ser_object [] ind ?parts)" by (rule ser_object_no_newline)
  with 7(2) show ?case by auto
next
  case (3 ind b)
  then show ?case using newline_not_literal(3,4) by (auto split: if_splits)
qed (use newline_not_literal(2) number_to_string_no_newline quote_no_newline in auto)

lemma JSON_stringify_no_newline: "JSON_stringify v = Some t \<Longrightarrow> newline \<notin> set t"
  unfolding JSON_stringify_def by (rule serialize_compact_no_newline)

lemma controlResponse_stringify: "\<exists>body. JSON_stringify (controlResponse request response) = Some body"
  by (simp add: JSON_stringify_def controlResponse_def)

lemma accepted_triple: "fst x = True \<Longrightarrow> x = (True, fst (snd x), snd (snd x))"
  by (cases x) auto

section \<open>Updates of the state\<close>

lemma objs_upd_proc [simp]: "objs (upd_proc p f s) = objs s" "chats (upd_proc p f s) = chats s"
  by (simp_all add: upd_proc_def)

lemma objs_close_rl [simp]: "objs (close_rl rl s) = objs s" "chats (close_rl rl s) = chats s"
  by (simp_all add: close_rl_def split: option.splits)

lemma upd_nth: "r < length (objs s) \<Longrightarrow> objs (upd r f s) ! r = f (objs s ! r)"
  by (simp add: upd_def)

lemma chats_upd [simp]: "chats (upd r f s) = chats s" "procs (upd r f s) = procs s"
  by (simp_all add: upd_def)

lemma length_objs_upd [simp]: "length (objs (upd r f s)) = length (objs s)"
  by (simp add: upd_def)

lemma procs_upd_proc: "procs (upd_proc p f s) = (procs s)[p := f (procs s ! p)]"
  by (simp add: upd_proc_def)



lemma map_update_same: "(map g xs)[r := g (xs ! r)] = map g xs"
  by (metis list_update_id map_update)

lemma map_of_update_same: "map_of (AList.update k v al) k = Some v"
  by (simp add: update_conv')

lemma list_all_upd:
  assumes "list_all P (objs s)" and "\<And>m. P m \<Longrightarrow> P (f m)"
  shows "list_all P (objs (upd r f s))"
proof (cases "r < length (objs s)")
  case True
  with assms(1) have "P (objs s ! r)" by (simp add: list_all_length)
  then have "P (f (objs s ! r))" by (rule assms(2))
  with assms(1) True show ?thesis
    by (auto simp: upd_def list_all_length nth_list_update)
next
  case False
  with assms(1) show ?thesis by (simp add: upd_def list_update_beyond)
qed

lemma list_all_update_nth:
  "list_all P xs \<Longrightarrow> (i < length xs \<Longrightarrow> P y) \<Longrightarrow> list_all P (xs[i := y])"
  by (cases "i < length xs") (auto simp: list_all_length nth_list_update list_update_beyond)

lemma list_all_alist_update:
  "list_all P al \<Longrightarrow> P (k, v) \<Longrightarrow> list_all P (AList.update k v al)"
  by (induction al) auto

lemma list_all_alist_delete: "list_all P al \<Longrightarrow> list_all P (AList.delete k al)"
  by (simp add: AList.delete_eq list_all_iff)

section \<open>Well-formed states\<close>

lemma wf_upd:
  assumes "well_formed s"
    and "\<And>m. distinct (map fst (pendingApprovals m)) \<Longrightarrow> distinct (map fst (pendingApprovals (f m)))"
  shows "well_formed (upd r f s)"
proof -
  have "list_all (\<lambda>m. distinct (map fst (pendingApprovals m))) (objs (upd r f s))"
    using assms by (intro list_all_upd) (simp_all add: well_formed_def)
  with assms(1) show ?thesis by (simp add: well_formed_def)
qed

lemma wf_upd_proc:
  assumes "well_formed s" and "\<And>c. owner (f c) = owner c"
  shows "well_formed (upd_proc p f s)"
proof -
  have "list_all (\<lambda>c. owner c < length (objs s)) ((procs s)[p := f (procs s ! p)])"
    using assms by (intro list_all_update_nth) (auto simp: well_formed_def list_all_length)
  with assms(1) show ?thesis by (simp add: well_formed_def procs_upd_proc)
qed

lemma wf_close_rl: "well_formed s \<Longrightarrow> well_formed (close_rl rl s)"
  by (cases rl) (simp_all add: close_rl_def wf_upd_proc)

lemma wf_chat_ref: "well_formed s \<Longrightarrow> map_of (chats s) chatId = Some r \<Longrightarrow> r < length (objs s)"
  by (auto simp: well_formed_def list_all_iff dest!: map_of_SomeD)



lemma wf_respond:
  "well_formed s \<Longrightarrow> respondToApproval chatId response s = (ok, s', effs) \<Longrightarrow> well_formed s'"
  by (auto simp: respondToApproval_def distinct_delete split: option.splits if_splits intro!: wf_upd)

lemma wf_approve_all:
  "well_formed s \<Longrightarrow> approve_all chatId ks s = (s', effs) \<Longrightarrow> well_formed s'"
proof (induction ks arbitrary: s s' effs)
  case Nil
  then show ?case by simp
next
  case (Cons k ks)
  then show ?case by (auto split: prod.splits dest: wf_respond)
qed

lemma wf_setAutoApprove:
  assumes "well_formed s" "setAutoApprove chatId enabled s = (ok, s', effs)"
  shows "well_formed s'"
proof (cases "map_of (chats s) chatId")
  case None
  with assms show ?thesis by (simp add: setAutoApprove_def)
next
  case (Some r)
  have "well_formed (upd r (\<lambda>m. m\<lparr>autoApprove := enabled\<rparr>) s)"
    using assms(1) by (rule wf_upd) simp
  with assms(2) Some show ?thesis
    by (auto simp: setAutoApprove_def Let_def split: if_splits prod.splits dest: wf_approve_all)
qed

lemma wf_handleControlRequest:
  assumes "well_formed s" "handleControlRequest msg managed chatId s = (e, s', effs)"
  shows "well_formed s'"
proof -
  define rid where "rid = getp msg ''request_id''"
  define request where "request = \<lparr>request_id = rid, rq_chat_id = chatId,
     tool_name = getp (getp msg ''request'') ''tool_name'',
     tool_use_id = getp (getp msg ''request'') ''tool_use_id'',
     input = getp (getp msg ''request'') ''input'',
     suggestions = getp (getp msg ''request'') ''permission_suggestions''\<rparr>"
  let ?s1 = "upd managed (\<lambda>m. m\<lparr>pendingApprovals := AList.update rid request (pendingApprovals m)\<rparr>) s"
  let ?s2 = "upd managed (\<lambda>m. m\<lparr>pendingApprovals := AList.update rid request (pendingApprovals m),
                 processState := AwaitingApproval\<rparr>) s"
  have 1: "well_formed ?s1" using assms(1) by (rule wf_upd) (simp add: distinct_update)
  have 2: "well_formed ?s2" using assms(1) by (rule wf_upd) (simp add: distinct_update)
  from assms(2) have "s' = s \<or> s' = ?s2 \<or> (\<exists>ok effs'. respondToApproval chatId
        \<lparr>rs_request_id = rid, behavior = Allow, updated_input = JUndefined, message = JUndefined\<rparr>
        ?s1 = (ok, s', effs'))"
    unfolding handleControlRequest_def Let_def rid_def[symmetric] request_def[symmetric]
    by (auto split: if_splits option.splits prod.splits)
  then show ?thesis using assms(1) 1 2 wf_respond by blast
qed

lemma wf_handleStreamLine:
  assumes "well_formed s" "handleStreamLine parsed managed chatId s = (s', effs)"
  shows "well_formed s'"
proof -
  have "well_formed (upd managed (\<lambda>m. m\<lparr>isProcessing := False, processState := Idle\<rparr>) s)"
    using assms(1) by (rule wf_upd) simp
  with assms show ?thesis
    by (auto simp: handleStreamLine_def split: option.splits if_splits prod.splits
        dest: wf_handleControlRequest)
qed

lemma wf_spawn:
  assumes "well_formed s" "r < length (objs s)"
  shows "well_formed (s\<lparr>procs := procs s @ [new_process r chatId]\<rparr>)"
  using assms by (simp add: well_formed_def new_process_def)

lemma wf_sendMessage:
  assumes "well_formed s" "sendMessage chatId msg atts s = (ok, s', effs)"
  shows "well_formed s'"
proof (cases "map_of (chats s) chatId")
  case None
  with assms show ?thesis by (simp add: sendMessage_def)
next
  case (Some r)
  define s1 where "s1 = (if stale s (objs s ! r)
       then upd r (\<lambda>m. m\<lparr>isProcessing := False, processState := Idle\<rparr>) s else s)"
  define s2 where "s2 = upd r (\<lambda>m. m\<lparr>isProcessing := True, processState := Processing,
                                     messageCount := messageCount m + 1,
                                     currentProcess := Some (length (procs s1)), stdoutRL := Some (length (procs s1)),
                                     chat := (chat m)\<lparr>wc_pid := Some (length (procs s1))\<rparr>\<rparr>) s1"
  have r: "r < length (objs s)" using assms(1) Some by (rule wf_chat_ref)
  have 1: "well_formed s1" unfolding s1_def using assms(1) by (auto intro!: wf_upd)
  have 2: "well_formed s2" unfolding s2_def using 1 by (rule wf_upd) simp
  have "r < length (objs s2)" using r by (simp add: s2_def s1_def)
  with 2 have 3: "well_formed (s2\<lparr>procs := procs s2 @ [new_process r chatId]\<rparr>)" by (rule wf_spawn)
  from assms(2) Some have "s' = s1 \<or> s' = s2\<lparr>procs := procs s2 @ [new_process r chatId]\<rparr>"
    unfolding sendMessage_def Let_def s2_def s1_def by (auto split: if_splits)
  with 1 3 show ?thesis by auto
qed

lemma wf_createChat:
  assumes "well_formed s" "createChat cid fresh cwd name sp ex pmode s = (c, s', effs)"
  shows "well_formed s'"
proof -
  have m: "\<And>P xs n. list_all (\<lambda>x. P x < n) xs \<Longrightarrow> list_all (\<lambda>x. P x < Suc n) xs"
    by (auto simp: list_all_iff)
  have "list_all (\<lambda>(cid, r). r < Suc (length (objs s))) (chats s)"
    using assms(1) by (auto simp: well_formed_def list_all_iff)
  then have "list_all (\<lambda>(cid, r). r < Suc (length (objs s)))
      (AList.update cid (length (objs s)) (chats s))"
    by (rule list_all_alist_update) simp
  moreover have "list_all (\<lambda>c. owner c < Suc (length (objs s))) (procs s)"
    using assms(1) by (auto simp: well_formed_def list_all_iff)
  ultimately show ?thesis
    using assms by (auto simp: createChat_def Let_def well_formed_def)
qed

lemma wf_on_exit:
  assumes "well_formed s" "on_exit p code signal s = (s', effs)"
  shows "well_formed s'"
proof (cases "p < length (procs s)")
  case True
  have 1: "well_formed (upd_proc p (\<lambda>c. c\<lparr>exitCode := code, signalCode := signal\<rparr>) s)"
    using assms(1) by (rule wf_upd_proc) simp
  have 2: "\<And>r. well_formed (upd r (\<lambda>m. m\<lparr>isProcessing := False, processState := Finished,
                               currentProcess := None\<rparr>) (upd_proc p (\<lambda>c. c\<lparr>exitCode := code, signalCode := signal\<rparr>) s))"
    using 1 by (rule wf_upd) simp
  from assms(2) True show ?thesis
    by (auto simp: on_exit_def Let_def intro!: wf_close_rl 2)
next
  case False
  with assms show ?thesis by (simp add: on_exit_def)
qed

lemma wf_on_error:
  assumes "well_formed s" "on_error p err s = (s', effs)"
  shows "well_formed s'"
proof (cases "p < length (procs s)")
  case True
  have "\<And>r. well_formed (upd r (\<lambda>m. m\<lparr>isProcessing := False, processState := ErrorState,
                               currentProcess := None\<rparr>) s)"
    using assms(1) by (rule wf_upd) simp
  with assms(2) True show ?thesis by (auto simp: on_error_def Let_def)
next
  case False
  with assms show ?thesis by (simp add: on_error_def)
qed

lemma wf_stopChat:
  assumes "well_formed s" "stopChat chatId s = (ok, s', effs)"
  shows "well_formed s'"
proof (cases "map_of (chats s) chatId")
  case None
  with assms show ?thesis by (simp add: stopChat_def)
next
  case (Some r)
  have k: "\<And>p. well_formed (upd_proc p (\<lambda>c. if exitCode c = None \<and> signalCode c = None
                                       then c\<lparr>killed := True\<rparr> else c) s)"
    using assms(1) by (rule wf_upd_proc) simp
  have u: "\<And>s0. well_formed s0 \<Longrightarrow>
      well_formed (upd r (\<lambda>m. m\<lparr>chat := (chat m)\<lparr>wc_status := ''stopped''\<rparr>\<rparr>) s0)"
    by (rule wf_upd) simp_all
  from assms Some show ?thesis
    by (auto simp: stopChat_def Let_def split: option.splits if_splits
        intro!: u wf_close_rl k)
qed

lemma wf_cleanup_loop: "well_formed s \<Longrightarrow> well_formed (snd (cleanup_loop xs s))"
proof (induction xs s rule: cleanup_loop.induct)
  case (1 s)
  then show ?case by simp
next
  case (2 cid r rest s)
  have "well_formed ((close_rl (stdoutRL (objs s ! r)) s)\<lparr>chats := AList.delete cid (chats s)\<rparr>)"
    using wf_close_rl[OF 2(3), of "stdoutRL (objs s ! r)"] 2(3)
    by (auto simp: well_formed_def intro: list_all_alist_delete)
  with 2 show ?case by (auto split: prod.splits)
qed

lemma wf_step: "well_formed s \<Longrightarrow> step e s = (s', effs) \<Longrightarrow> well_formed s'"
proof (cases e)
  case Cleanup
  assume "well_formed s" "step e s = (s', effs)"
  with Cleanup show ?thesis by (auto simp: cleanup_def wf_cleanup_loop)
next
  case (Line p parsed)
  assume "well_formed s" "step e s = (s', effs)"
  with Line show ?thesis
    by (auto simp: on_line_def split: if_splits dest: wf_handleStreamLine)
qed (auto split: prod.splits
      dest: wf_createChat wf_sendMessage wf_respond wf_setAutoApprove
        wf_stopChat wf_on_exit wf_on_error)

lemma wf_run: "well_formed s \<Longrightarrow> run es s = (s', effs) \<Longrightarrow> well_formed s'"
proof (induction es arbitrary: s s' effs)
  case Nil
  then show ?case by simp
next
  case (Cons e es)
  then show ?case by (auto split: prod.splits dest: wf_step)
qed

text \<open>Every state reached from the initial one is well formed.\<close>

theorem reachable_well_formed: "well_formed (fst (run es init))"
proof -
  have "well_formed init" by (simp add: init_def well_formed_def)
  moreover have "run es init = (fst (run es init), snd (run es init))" by simp
  ultimately show ?thesis by (rule wf_run)
qed

section \<open>Failure of respondToApproval\<close>



section \<open>The control response\<close>

text \<open>
  Claim C1. Every approval decision that \<^verbatim>\<open>respondToApproval\<close> sends is one write to
  the stdin of the chat's current process: the \<^verbatim>\<open>JSON.stringify\<close> text of the envelope
  \<^verbatim>\<open>{type: "control_response", response: {subtype: "success", request_id, response}}\<close>
  followed by a newline, and the text itself holds no newline. The inner \<^verbatim>\<open>response\<close>
  is \<^verbatim>\<open>{behavior: "allow", updatedInput, toolUseID}\<close> for allow, where
  \<^verbatim>\<open>updatedInput\<close> is the caller's edited input when one is given and the request's
  input otherwise and \<^verbatim>\<open>toolUseID\<close> is the request's \<^verbatim>\<open>tool_use_id\<close>; it is
  \<^verbatim>\<open>{behavior: "deny", message}\<close> for deny, where \<^verbatim>\<open>message\<close> is the caller's message
  when one is given and \<^verbatim>\<open>"User denied this action"\<close> otherwise. A value is given when
  it is truthy: an absent or empty message counts as none. (\<^verbatim>\<open>JSON.stringify\<close> leaves
  out a property whose value is \<^verbatim>\<open>undefined\<close>, so a request without \<^verbatim>\<open>tool_use_id\<close> is
  answered without \<^verbatim>\<open>toolUseID\<close>.)
\<close>

theorem respondToApproval_control_response_line:
  assumes "respondToApproval chatId response s = (True, s', effs)"
  shows "\<exists>r p request body.
      map_of (chats s) chatId = Some r
    \<and> map_of (pendingApprovals (objs s ! r)) (rs_request_id response) = Some request
    \<and> currentProcess (objs s ! r) = Some p
    \<and> effs = [StdinWrite p (body @ [newline]),
               Emit (ChatStatus chatId ''running'' (Some Processing) None),
               Emit (approval_log chatId request response)]
    \<and> newline \<notin> set body
    \<and> JSON_stringify
         (JObj [(''type'', JStr ''control_response''),
                (''response'', JObj [
                   (''subtype'', JStr ''success''),
                   (''request_id'', rs_request_id response),
                   (''response'',
                      (case behavior response of
                         Allow \<Rightarrow>
                           JObj [(''behavior'', JStr ''allow''),
                                 (''updatedInput'',
                                    if truthy (updated_input response)
                                    then updated_input response else input request),
                                 (''toolUseID'', tool_use_id request)]
                       | Deny \<Rightarrow>
                           JObj [(''behavior'', JStr ''deny''),
                                 (''message'',
                                    if truthy (message response) then message response
                                    else JStr ''User denied this action'')]))])])
        = Some body"
proof -
  from assms obtain r request p where
    r: "map_of (chats s) chatId = Some r" and
    q: "map_of (pendingApprovals (objs s ! r)) (rs_request_id response) = Some request" and
    p: "currentProcess (objs s ! r) = Some p" and
    e: "effs = [StdinWrite p (json_line (controlResponse request response)),
               Emit (ChatStatus chatId ''running'' (Some Processing) None),
               Emit (approval_log chatId request response)]"
    by (auto simp: respondToApproval_def split: option.splits if_splits)
  obtain body where b: "JSON_stringify (controlResponse request response) = Some body"
    using controlResponse_stringify by blast
  have n: "newline \<notin> set body" using b by (rule JSON_stringify_no_newline)
  have l: "json_line (controlResponse request response) = body @ [newline]"
    using b by (simp add: json_line_def)
  have c: "controlResponse request response =
         JObj [(''type'', JStr ''control_response''),
                (''response'', JObj [
                   (''subtype'', JStr ''success''),
                   (''request_id'', rs_request_id response),
                   (''response'',
                      (case behavior response of
                         Allow \<Rightarrow>
                           JObj [(''behavior'', JStr ''allow''),
                                 (''updatedInput'',
                                    if truthy (updated_input response)
                                    then updated_input response else input request),
                                 (''toolUseID'', tool_use_id request)]
                       | Deny \<Rightarrow>
                           JObj [(''behavior'', JStr ''deny''),
                                 (''message'',
                                    if truthy (message response) then message response
                                    else JStr ''User denied this action'')]))])]"
    by (cases "behavior response") (simp_all add: controlResponse_def js_or_def)
  show ?thesis using r q p e n l b unfolding c by blast
qed

text \<open>
  The theorem at a chat that awaits two approvals, and the text written for an allow, for a
  deny with a message and for a deny with an empty message.
\<close>

theorem respondToApproval_control_response_line_witness:
  \<open>(\<exists>body. snd (snd (respondToApproval ''c1'' (allow ''r1'') (fst (run awaiting_two init)))) ! 0
            = StdinWrite 0 (body @ [newline]) \<and> newline \<notin> set body)
   \<and> snd (snd (respondToApproval ''c1'' (allow ''r1'') (fst (run awaiting_two init)))) ! 0
       = StdinWrite 0 (''{"type":"control_response","response":{"subtype":"success","request_id":"r1","response":{"behavior":"allow","updatedInput":{"command":"ls /tmp"},"toolUseID":"toolu_r1"}}}'' @ [newline])
   \<and> snd (snd (respondToApproval ''c1'' (deny ''r1'' (JStr ''not now'')) (fst (run awaiting_two init)))) ! 0
       = StdinWrite 0 (''{"type":"control_response","response":{"subtype":"success","request_id":"r1","response":{"behavior":"deny","message":"not now"}}}'' @ [newline])
   \<and> snd (snd (respondToApproval ''c1'' (deny ''r1'' (JStr [])) (fst (run awaiting_two init)))) ! 0
       = StdinWrite 0 (''{"type":"control_response","response":{"subtype":"success","request_id":"r1","response":{"behavior":"deny","message":"User denied this action"}}}'' @ [newline])\<close>
proof -
  let ?s = "fst (run awaiting_two init)"
  let ?res = "respondToApproval ''c1'' (allow ''r1'') ?s"
  have "fst ?res = True" by code_simp
  then have ev: "?res = (True, fst (snd ?res), snd (snd ?res))"
    by (rule accepted_triple)
  have c: "map_of (chats ?s) ''c1'' = Some 0" "currentProcess (objs ?s ! 0) = Some 0"
    by code_simp+
  from respondToApproval_control_response_line[OF ev] c
  have 1: "\<exists>body. snd (snd ?res) ! 0 = StdinWrite 0 (body @ [newline]) \<and> newline \<notin> set body"
    by auto
  have 2: \<open>snd (snd ?res) ! 0
       = StdinWrite 0 (''{"type":"control_response","response":{"subtype":"success","request_id":"r1","response":{"behavior":"allow","updatedInput":{"command":"ls /tmp"},"toolUseID":"toolu_r1"}}}'' @ [newline])\<close>
    by code_simp
  have 3: \<open>snd (snd (respondToApproval ''c1'' (deny ''r1'' (JStr ''not now'')) ?s)) ! 0
       = StdinWrite 0 (''{"type":"control_response","response":{"subtype":"success","request_id":"r1","response":{"behavior":"deny","message":"not now"}}}'' @ [newline])\<close>
    by code_simp
  have 4: \<open>snd (snd (respondToApproval ''c1'' (deny ''r1'' (JStr [])) ?s)) ! 0
       = StdinWrite 0 (''{"type":"control_response","response":{"subtype":"success","request_id":"r1","response":{"behavior":"deny","message":"User denied this action"}}}'' @ [newline])\<close>
    by code_simp
  from 1 2 3 4 show ?thesis by blast
qed

section \<open>Lines the handler ignores\<close>

text \<open>
  Claim C6. A line that is not JSON, a parsed line whose \<^verbatim>\<open>type\<close> is none of
  \<^verbatim>\<open>control_request\<close>, \<^verbatim>\<open>assistant\<close>, \<^verbatim>\<open>user\<close>, \<^verbatim>\<open>result\<close>, and a
  \<^verbatim>\<open>control_request\<close> whose request subtype is not \<^verbatim>\<open>can_use_tool\<close> leave the
  manager's state unchanged (so \<^verbatim>\<open>processState\<close> and \<^verbatim>\<open>pendingApprovals\<close> too) and
  emit nothing. \<^verbatim>\<open>handleStreamLine\<close> has no error result: its \<^verbatim>\<open>catch\<close> swallows every
  exception of its body.
\<close>

theorem handleStreamLine_ignores_unknown:
  assumes "parsed = None
     \<or> (\<exists>msg. parsed = Some msg \<and>
          (getp msg ''type'' \<notin> {JStr ''control_request'', JStr ''assistant'', JStr ''user'', JStr ''result''}
           \<or> (getp msg ''type'' = JStr ''control_request''
               \<and> opt_prop (getp msg ''request'') ''subtype'' \<noteq> JStr ''can_use_tool'')))"
  shows "handleStreamLine parsed managed chatId s = (s, [])"
  using assms
  by (auto simp: handleStreamLine_def handleControlRequest_def assistant_part_def user_part_def
      split: option.splits)

theorem handleStreamLine_ignores_unknown_witness:
  "handleStreamLine None 0 ''c1'' (fst (run awaiting_two init)) = (fst (run awaiting_two init), [])
   \<and> handleStreamLine (Some (JObj [(''type'', JStr ''stream_event''), (''event'', JNull)])) 0 ''c1''
        (fst (run awaiting_two init)) = (fst (run awaiting_two init), [])
   \<and> handleStreamLine (Some (JObj [(''type'', JStr ''control_request''), (''request_id'', JStr ''r3''),
          (''request'', JObj [(''subtype'', JStr ''interrupt'')])])) 0 ''c1''
        (fst (run awaiting_two init)) = (fst (run awaiting_two init), [])"
proof -
  have b: "getp (JObj [(''type'', JStr ''stream_event''), (''event'', JNull)]) ''type''
       \<notin> {JStr ''control_request'', JStr ''assistant'', JStr ''user'', JStr ''result''}"
    by simp
  have c: "getp (JObj [(''type'', JStr ''control_request''), (''request_id'', JStr ''r3''),
          (''request'', JObj [(''subtype'', JStr ''interrupt'')])]) ''type'' = JStr ''control_request''
     \<and> opt_prop (getp (JObj [(''type'', JStr ''control_request''), (''request_id'', JStr ''r3''),
          (''request'', JObj [(''subtype'', JStr ''interrupt'')])]) ''request'') ''subtype''
          \<noteq> JStr ''can_use_tool''"
    by (simp add: opt_prop_def nullish_def)
  show ?thesis
    using handleStreamLine_ignores_unknown[of None 0 "''c1''" "fst (run awaiting_two init)"]
      handleStreamLine_ignores_unknown[of "Some (JObj [(''type'', JStr ''stream_event''), (''event'', JNull)])"
         0 "''c1''" "fst (run awaiting_two init)"]
      handleStreamLine_ignores_unknown[of "Some (JObj [(''type'', JStr ''control_request''), (''request_id'', JStr ''r3''),
          (''request'', JObj [(''subtype'', JStr ''interrupt'')])])" 0 "''c1''" "fst (run awaiting_two init)"]
      b c by blast
qed

section \<open>New conversation or resume\<close>

lemma spawn_args_upd:
  "spawn_args ((objs (upd r (\<lambda>m. m\<lparr>isProcessing := False, processState := Idle\<rparr>) s)) ! r)
     = spawn_args (objs s ! r)"
  by (cases "r < length (objs s)") (simp_all add: upd_def spawn_args_def list_update_beyond)

lemma cwd_upd:
  "wc_cwd (chat ((objs (upd r (\<lambda>m. m\<lparr>isProcessing := False, processState := Idle\<rparr>) s)) ! r))
     = wc_cwd (chat (objs s ! r))"
  by (cases "r < length (objs s)") (simp_all add: upd_def list_update_beyond)

lemma sendMessage_accepted:
  assumes "sendMessage chatId msg atts s = (True, s', effs)"
  shows "\<exists>r p. map_of (chats s) chatId = Some r
     \<and> effs = [Emit (ChatStatus chatId ''running'' (Some Processing) None),
               Spawn p (spawn_args (objs s ! r)) (wc_cwd (chat (objs s ! r))),
               StdinWriteLater p (json_line (user_message msg atts))]"
  using assms
  by (auto simp: sendMessage_def Let_def spawn_args_upd cwd_upd split: option.splits if_splits)

text \<open>
  Claim C8. An accepted \<^verbatim>\<open>sendMessage\<close> spawns the child with the fixed flags, the
  permission flags and then: \<^verbatim>\<open>--session-id <sessionId>\<close> (followed by
  \<^verbatim>\<open>--append-system-prompt <prompt>\<close> when the chat has a non-empty system prompt)
  exactly when \<^verbatim>\<open>messageCount\<close> is 0, and \<^verbatim>\<open>--resume <sessionId>\<close> exactly when it is
  greater; the count is then incremented (in a well-formed state). A chat created from an existing (non-empty)
  session id starts with that id and count 1, so its first message resumes.
\<close>

theorem sendMessage_spawn_identity:
  "(sendMessage chatId msg atts s = (True, s', effs) \<longrightarrow>
      (\<exists>r p. map_of (chats s) chatId = Some r
         \<and> effs = [Emit (ChatStatus chatId ''running'' (Some Processing) None),
                   Spawn p
                     ([''-p'', ''--verbose'', ''--output-format'', ''stream-json'',
                       ''--input-format'', ''stream-json'', ''--max-turns'', ''50'']
                      @ (if permissionMode (objs s ! r) = FullAI
                         then [''--dangerously-skip-permissions'']
                         else [''--permission-mode'', ''default'',
                               ''--permission-prompt-tool'', ''stdio''])
                      @ (if messageCount (objs s ! r) = 0
                         then [''--session-id'', sessionId (objs s ! r)]
                              @ (case systemPrompt (objs s ! r) of
                                   None \<Rightarrow> []
                                 | Some sp \<Rightarrow>
                                     if sp \<noteq> [] then [''--append-system-prompt'', sp] else [])
                         else [''--resume'', sessionId (objs s ! r)]))
                     (wc_cwd (chat (objs s ! r))),
                   StdinWriteLater p (json_line (user_message msg atts))]
         \<and> (well_formed s \<longrightarrow> messageCount (objs s' ! r) = messageCount (objs s ! r) + 1)))
   \<and> (existing \<noteq> [] \<longrightarrow>
        (case createChat cid fresh cwd name sp (Some existing) pmode s of
           (c, s1, effs1) \<Rightarrow>
             sessionId (objs s1 ! length (objs s)) = existing
             \<and> messageCount (objs s1 ! length (objs s)) = 1
             \<and> (\<exists>s2 args. sendMessage cid msg atts s1
                   = (True, s2,
                      [Emit (ChatStatus cid ''running'' (Some Processing) None),
                       Spawn (length (procs s)) (args @ [''--resume'', existing]) cwd,
                       StdinWriteLater (length (procs s)) (json_line (user_message msg atts))]))))"
proof (intro conjI impI)
  assume a: "sendMessage chatId msg atts s = (True, s', effs)"
  then obtain r p where r: "map_of (chats s) chatId = Some r"
    and e: "effs = [Emit (ChatStatus chatId ''running'' (Some Processing) None),
               Spawn p (spawn_args (objs s ! r)) (wc_cwd (chat (objs s ! r))),
               StdinWriteLater p (json_line (user_message msg atts))]"
    using sendMessage_accepted by blast
  have "r < length (objs s) \<longrightarrow> messageCount (objs s' ! r) = messageCount (objs s ! r) + 1"
    using a r by (auto simp: sendMessage_def Let_def upd_def split: if_splits)
  then have m: "well_formed s \<longrightarrow> messageCount (objs s' ! r) = messageCount (objs s ! r) + 1"
    using r wf_chat_ref by blast
  show "\<exists>r p. map_of (chats s) chatId = Some r
         \<and> effs = [Emit (ChatStatus chatId ''running'' (Some Processing) None),
                   Spawn p
                     ([''-p'', ''--verbose'', ''--output-format'', ''stream-json'',
                       ''--input-format'', ''stream-json'', ''--max-turns'', ''50'']
                      @ (if permissionMode (objs s ! r) = FullAI
                         then [''--dangerously-skip-permissions'']
                         else [''--permission-mode'', ''default'',
                               ''--permission-prompt-tool'', ''stdio''])
                      @ (if messageCount (objs s ! r) = 0
                         then [''--session-id'', sessionId (objs s ! r)]
                              @ (case systemPrompt (objs s ! r) of
                                   None \<Rightarrow> []
                                 | Some sp \<Rightarrow>
                                     if sp \<noteq> [] then [''--append-system-prompt'', sp] else [])
                         else [''--resume'', sessionId (objs s ! r)]))
                     (wc_cwd (chat (objs s ! r))),
                   StdinWriteLater p (json_line (user_message msg atts))]
         \<and> (well_formed s \<longrightarrow> messageCount (objs s' ! r) = messageCount (objs s ! r) + 1)"
    using r e m unfolding spawn_args_def by blast
next
  assume ex: "existing \<noteq> []"
  show "case createChat cid fresh cwd name sp (Some existing) pmode s of
           (c, s1, effs1) \<Rightarrow>
             sessionId (objs s1 ! length (objs s)) = existing
             \<and> messageCount (objs s1 ! length (objs s)) = 1
             \<and> (\<exists>s2 args. sendMessage cid msg atts s1
                   = (True, s2,
                      [Emit (ChatStatus cid ''running'' (Some Processing) None),
                       Spawn (length (procs s)) (args @ [''--resume'', existing]) cwd,
                       StdinWriteLater (length (procs s)) (json_line (user_message msg atts))]))"
    using ex
    by (simp add: createChat_def sendMessage_def Let_def or_else_def given_def map_of_update_same
        stale_def upd_def spawn_args_def)
qed

text \<open>
  A new chat with a system prompt, the second message of a chat, and the first message of
  a chat created from the existing session \<^verbatim>\<open>sess-0\<close>.
\<close>

theorem sendMessage_spawn_identity_witness:
  "(\<exists>p. snd (snd (sendMessage ''c1'' ''hello'' None
        (fst (run [CreateChat ''c1'' ''sess-1'' ''/tmp'' None (Some ''Be brief.'') None Assisted] init))))
      = [Emit (ChatStatus ''c1'' ''running'' (Some Processing) None),
         Spawn p [''-p'', ''--verbose'', ''--output-format'', ''stream-json'',
                  ''--input-format'', ''stream-json'', ''--max-turns'', ''50'',
                  ''--permission-mode'', ''default'', ''--permission-prompt-tool'', ''stdio'',
                  ''--session-id'', ''sess-1'', ''--append-system-prompt'', ''Be brief.'']
               ''/tmp'',
         StdinWriteLater p (json_line (user_message ''hello'' None))])
   \<and> (\<exists>p. snd (snd (sendMessage ''c1'' ''second'' None (fst (run first_turn_done init))))
      = [Emit (ChatStatus ''c1'' ''running'' (Some Processing) None),
         Spawn p [''-p'', ''--verbose'', ''--output-format'', ''stream-json'',
                  ''--input-format'', ''stream-json'', ''--max-turns'', ''50'',
                  ''--permission-mode'', ''default'', ''--permission-prompt-tool'', ''stdio'',
                  ''--resume'', ''sess-1'']
               ''/tmp'',
         StdinWriteLater p (json_line (user_message ''second'' None))])
   \<and> (case createChat ''c2'' ''sess-2'' ''/srv'' None None (Some ''sess-0'') FullAI init of
         (c, s1, effs1) \<Rightarrow>
            sessionId (objs s1 ! length (objs init)) = ''sess-0''
          \<and> messageCount (objs s1 ! length (objs init)) = 1
          \<and> (\<exists>s2 args. sendMessage ''c2'' ''hello'' None s1
                = (True, s2,
                   [Emit (ChatStatus ''c2'' ''running'' (Some Processing) None),
                    Spawn (length (procs init)) (args @ [''--resume'', ''sess-0'']) ''/srv'',
                    StdinWriteLater (length (procs init)) (json_line (user_message ''hello'' None))])))"
proof -
  let ?s0 = "fst (run [CreateChat ''c1'' ''sess-1'' ''/tmp'' None (Some ''Be brief.'') None Assisted] init)"
  let ?r0 = "sendMessage ''c1'' ''hello'' None ?s0"
  let ?s1 = "fst (run first_turn_done init)"
  let ?r1 = "sendMessage ''c1'' ''second'' None ?s1"
  have "fst ?r0 = True" by code_simp
  then have e0: "?r0 = (True, fst (snd ?r0), snd (snd ?r0))" by (rule accepted_triple)
  have "fst ?r1 = True" by code_simp
  then have e1: "?r1 = (True, fst (snd ?r1), snd (snd ?r1))" by (rule accepted_triple)
  have c0: "map_of (chats ?s0) ''c1'' = Some 0 \<and> permissionMode (objs ?s0 ! 0) = Assisted
      \<and> messageCount (objs ?s0 ! 0) = 0 \<and> sessionId (objs ?s0 ! 0) = ''sess-1''
      \<and> systemPrompt (objs ?s0 ! 0) = Some ''Be brief.'' \<and> wc_cwd (chat (objs ?s0 ! 0)) = ''/tmp''"
    by code_simp
  have c1: "map_of (chats ?s1) ''c1'' = Some 0 \<and> permissionMode (objs ?s1 ! 0) = Assisted
      \<and> messageCount (objs ?s1 ! 0) = 1 \<and> sessionId (objs ?s1 ! 0) = ''sess-1''
      \<and> wc_cwd (chat (objs ?s1 ! 0)) = ''/tmp''"
    by code_simp
  have ne: "''sess-0'' \<noteq> []" by simp
  note t0 = sendMessage_spawn_identity[where chatId = "''c1''" and msg = "''hello''" and atts = None
      and s = ?s0 and s' = "fst (snd ?r0)" and effs = "snd (snd ?r0)", THEN conjunct1, rule_format, OF e0]
  note t1 = sendMessage_spawn_identity[where chatId = "''c1''" and msg = "''second''" and atts = None
      and s = ?s1 and s' = "fst (snd ?r1)" and effs = "snd (snd ?r1)", THEN conjunct1, rule_format, OF e1]
  note t2 = sendMessage_spawn_identity[where existing = "''sess-0''" and cid = "''c2''"
      and fresh = "''sess-2''" and cwd = "''/srv''" and name = None and sp = None and pmode = FullAI
      and s = init and msg = "''hello''" and atts = None, THEN conjunct2, rule_format, OF ne]
  from t0 c0 have a: "\<exists>p. snd (snd ?r0)
      = [Emit (ChatStatus ''c1'' ''running'' (Some Processing) None),
         Spawn p [''-p'', ''--verbose'', ''--output-format'', ''stream-json'',
                  ''--input-format'', ''stream-json'', ''--max-turns'', ''50'',
                  ''--permission-mode'', ''default'', ''--permission-prompt-tool'', ''stdio'',
                  ''--session-id'', ''sess-1'', ''--append-system-prompt'', ''Be brief.'']
               ''/tmp'',
         StdinWriteLater p (json_line (user_message ''hello'' None))]"
    by auto
  from t1 c1 have b: "\<exists>p. snd (snd ?r1)
      = [Emit (ChatStatus ''c1'' ''running'' (Some Processing) None),
         Spawn p [''-p'', ''--verbose'', ''--output-format'', ''stream-json'',
                  ''--input-format'', ''stream-json'', ''--max-turns'', ''50'',
                  ''--permission-mode'', ''default'', ''--permission-prompt-tool'', ''stdio'',
                  ''--resume'', ''sess-1'']
               ''/tmp'',
         StdinWriteLater p (json_line (user_message ''second'' None))]"
    by auto
  from a b t2 show ?thesis by blast
qed

section \<open>One turn at a time\<close>

lemma same_turn_refl: "same_turn s s"
  by (simp add: same_turn_def)

lemma same_turn_trans: "same_turn s s1 \<Longrightarrow> same_turn s1 s2 \<Longrightarrow> same_turn s s2"
  by (simp add: same_turn_def)

lemma same_turn_upd:
  "(\<And>m. isProcessing (f m) = isProcessing m) \<Longrightarrow> (\<And>m. currentProcess (f m) = currentProcess m)
     \<Longrightarrow> same_turn s (upd r f s)"
  by (simp add: same_turn_def upd_def map_update map_update_same)

lemma same_turn_respond:
  "respondToApproval chatId response s = (ok, s', effs) \<Longrightarrow> same_turn s s'"
  by (auto simp: respondToApproval_def same_turn_refl intro!: same_turn_upd
      split: option.splits if_splits)

lemma same_turn_approve_all:
  "approve_all chatId ks s = (s', effs) \<Longrightarrow> same_turn s s'"
proof (induction ks arbitrary: s s' effs)
  case Nil
  then show ?case by (simp add: same_turn_refl)
next
  case (Cons k ks)
  then show ?case
    by (auto split: prod.splits intro: same_turn_trans dest: same_turn_respond)
qed

lemma same_turn_setAutoApprove:
  "setAutoApprove chatId enabled s = (ok, s', effs) \<Longrightarrow> same_turn s s'"
proof (cases "map_of (chats s) chatId")
  case None
  assume "setAutoApprove chatId enabled s = (ok, s', effs)"
  with None show ?thesis by (simp add: setAutoApprove_def same_turn_refl)
next
  case (Some r)
  assume a: "setAutoApprove chatId enabled s = (ok, s', effs)"
  let ?s1 = "upd r (\<lambda>m. m\<lparr>autoApprove := enabled\<rparr>) s"
  have 1: "same_turn s ?s1" by (rule same_turn_upd) simp_all
  have "same_turn ?s1 s'"
    using a Some
    by (auto simp: setAutoApprove_def Let_def same_turn_refl
        split: if_splits prod.splits dest: same_turn_approve_all)
  with 1 show ?thesis by (rule same_turn_trans)
qed

lemma same_turn_handleControlRequest:
  "handleControlRequest msg managed chatId s = (e, s', effs) \<Longrightarrow> same_turn s s'"
proof -
  assume a: "handleControlRequest msg managed chatId s = (e, s', effs)"
  define rid where "rid = getp msg ''request_id''"
  define request where "request = \<lparr>request_id = rid, rq_chat_id = chatId,
     tool_name = getp (getp msg ''request'') ''tool_name'',
     tool_use_id = getp (getp msg ''request'') ''tool_use_id'',
     input = getp (getp msg ''request'') ''input'',
     suggestions = getp (getp msg ''request'') ''permission_suggestions''\<rparr>"
  let ?s1 = "upd managed (\<lambda>m. m\<lparr>pendingApprovals := AList.update rid request (pendingApprovals m)\<rparr>) s"
  let ?s2 = "upd managed (\<lambda>m. m\<lparr>pendingApprovals := AList.update rid request (pendingApprovals m),
                 processState := AwaitingApproval\<rparr>) s"
  have 1: "same_turn s ?s1" by (rule same_turn_upd) simp_all
  have 2: "same_turn s ?s2" by (rule same_turn_upd) simp_all
  from a have "s' = s \<or> s' = ?s2 \<or> (\<exists>ok effs'. respondToApproval chatId
        \<lparr>rs_request_id = rid, behavior = Allow, updated_input = JUndefined, message = JUndefined\<rparr>
        ?s1 = (ok, s', effs'))"
    unfolding handleControlRequest_def Let_def rid_def[symmetric] request_def[symmetric]
    by (auto split: if_splits option.splits prod.splits)
  then show ?thesis
    using 1 2 same_turn_refl same_turn_respond same_turn_trans by blast
qed

lemma same_turn_handleStreamLine:
  "getp msg ''type'' \<noteq> JStr ''result'' \<Longrightarrow> handleStreamLine (Some msg) managed chatId s = (s', effs)
     \<Longrightarrow> same_turn s s'"
  by (auto simp: handleStreamLine_def same_turn_refl
      split: option.splits if_splits prod.splits dest: same_turn_handleControlRequest)

lemma same_turn_step: "turn_event e \<Longrightarrow> step e s = (s', effs) \<Longrightarrow> same_turn s s'"
proof (induction e rule: turn_event.induct)
  case (1 p)
  then show ?case by (auto simp: on_line_def handleStreamLine_def same_turn_refl split: if_splits)
next
  case (2 p msg)
  then show ?case
    by (auto simp: on_line_def same_turn_refl split: if_splits dest: same_turn_handleStreamLine)
next
  case (3 chatId response)
  then show ?case by (auto split: prod.splits dest: same_turn_respond)
next
  case (4 chatId enabled)
  then show ?case by (auto split: prod.splits dest: same_turn_setAutoApprove)
qed simp_all

lemma same_turn_run: "list_all turn_event es \<Longrightarrow> run es s = (s', effs) \<Longrightarrow> same_turn s s'"
proof (induction es arbitrary: s s' effs)
  case Nil
  then show ?case by (simp add: same_turn_refl)
next
  case (Cons e es)
  then show ?case
    by (auto split: prod.splits intro: same_turn_trans dest: same_turn_step)
qed

lemma sendMessage_in_flight:
  assumes "map_of (chats s) chatId = Some r" "isProcessing (objs s ! r)" "\<not> stale s (objs s ! r)"
  shows "sendMessage chatId msg atts s = (False, s, [])"
  using assms by (simp add: sendMessage_def)

lemma sendMessage_establishes:
  assumes "sendMessage chatId msg atts s = (True, s', effs)" "map_of (chats s) chatId = Some r"
    "r < length (objs s)"
  shows "map_of (chats s') chatId = Some r \<and> isProcessing (objs s' ! r) \<and> \<not> stale s' (objs s' ! r)"
  using assms
  by (auto simp: sendMessage_def Let_def upd_def stale_def new_process_def nth_append
      split: if_splits)

lemma same_turn_in_flight:
  assumes "same_turn s s'" "r < length (objs s)"
    "map_of (chats s) chatId = Some r" "isProcessing (objs s ! r)" "\<not> stale s (objs s ! r)"
  shows "map_of (chats s') chatId = Some r \<and> isProcessing (objs s' ! r) \<and> \<not> stale s' (objs s' ! r)"
proof -
  from assms(1) have l: "length (objs s') = length (objs s)"
    unfolding same_turn_def by (metis length_map)
  from assms(1,2) l have "isProcessing (objs s' ! r) = isProcessing (objs s ! r)"
    "currentProcess (objs s' ! r) = currentProcess (objs s ! r)"
    unfolding same_turn_def by (metis nth_map)+
  with assms show ?thesis by (auto simp: same_turn_def stale_def split: option.splits)
qed

text \<open>
  Claim C3, as amended. A turn is in flight when \<^verbatim>\<open>isProcessing\<close> is set and the stale
  test fails, that is when the chat has a process object that was not sent a signal and
  has no exit code. \<^verbatim>\<open>sendMessage\<close> on such a chat returns \<^verbatim>\<open>false\<close>, changes nothing
  and spawns nothing. After a \<^verbatim>\<open>sendMessage\<close> accepted in a well-formed state the turn
  stays in flight through any sequence of stdout lines other than \<^verbatim>\<open>result\<close>,
  approval decisions and auto-approve changes, so a second \<^verbatim>\<open>sendMessage\<close> after them
  is rejected.
\<close>

theorem sendMessage_rejected_while_in_flight:
  "(map_of (chats s) chatId = Some r \<and> isProcessing (objs s ! r) \<and> \<not> stale s (objs s ! r)
      \<longrightarrow> sendMessage chatId msg atts s = (False, s, []))
   \<and> (well_formed s \<and> sendMessage chatId msg atts s = (True, s1, effs1)
       \<and> list_all turn_event es \<and> run es s1 = (s2, effs2)
      \<longrightarrow> sendMessage chatId msg' atts' s2 = (False, s2, []))"
proof (intro conjI impI)
  assume "map_of (chats s) chatId = Some r \<and> isProcessing (objs s ! r) \<and> \<not> stale s (objs s ! r)"
  then show "sendMessage chatId msg atts s = (False, s, [])"
    by (simp add: sendMessage_in_flight)
next
  assume a: "well_formed s \<and> sendMessage chatId msg atts s = (True, s1, effs1)
       \<and> list_all turn_event es \<and> run es s1 = (s2, effs2)"
  then obtain r' where c: "map_of (chats s) chatId = Some r'"
    using sendMessage_accepted by blast
  with a have r': "r' < length (objs s)" using wf_chat_ref by blast
  from a c r' have 1: "map_of (chats s1) chatId = Some r' \<and> isProcessing (objs s1 ! r')
      \<and> \<not> stale s1 (objs s1 ! r')"
    using sendMessage_establishes by blast
  have l: "r' < length (objs s1)"
    using a c r' by (auto simp: sendMessage_def Let_def upd_def split: if_splits)
  have "same_turn s1 s2" using a same_turn_run by blast
  then have "map_of (chats s2) chatId = Some r' \<and> isProcessing (objs s2 ! r')
      \<and> \<not> stale s2 (objs s2 ! r')"
    using same_turn_in_flight l 1 by blast
  then show "sendMessage chatId msg' atts' s2 = (False, s2, [])"
    by (simp add: sendMessage_in_flight)
qed

text \<open>
  The rejection on the chat that awaits two approvals, and after a first message, one
  approval request and its answer.
\<close>

theorem sendMessage_rejected_while_in_flight_witness:
  "sendMessage ''c1'' ''again'' None (fst (run awaiting_two init))
      = (False, fst (run awaiting_two init), [])
   \<and> sendMessage ''c1'' ''again'' None
        (fst (run [Line 0 (Some (can_use_tool_line ''r1'' ''Bash'')), RespondToApproval ''c1'' (allow ''r1'')]
           (fst (snd (sendMessage ''c1'' ''list files in /tmp'' None
              (fst (run [CreateChat ''c1'' ''sess-1'' ''/tmp'' None None None Assisted] init)))))))
      = (False,
         fst (run [Line 0 (Some (can_use_tool_line ''r1'' ''Bash'')), RespondToApproval ''c1'' (allow ''r1'')]
           (fst (snd (sendMessage ''c1'' ''list files in /tmp'' None
              (fst (run [CreateChat ''c1'' ''sess-1'' ''/tmp'' None None None Assisted] init)))))),
         [])"
proof -
  let ?a = "fst (run awaiting_two init)"
  let ?s = "fst (run [CreateChat ''c1'' ''sess-1'' ''/tmp'' None None None Assisted] init)"
  let ?r = "sendMessage ''c1'' ''list files in /tmp'' None ?s"
  let ?es = "[Line 0 (Some (can_use_tool_line ''r1'' ''Bash'')), RespondToApproval ''c1'' (allow ''r1'')]"
  have a: "map_of (chats ?a) ''c1'' = Some 0 \<and> isProcessing (objs ?a ! 0) \<and> \<not> stale ?a (objs ?a ! 0)"
    by code_simp
  have "fst ?r = True" by code_simp
  then have e: "?r = (True, fst (snd ?r), snd (snd ?r))" by (rule accepted_triple)
  have b: "well_formed ?s" by code_simp
  have c: "list_all turn_event ?es" by (simp add: can_use_tool_line_def)
  have d: "run ?es (fst (snd ?r)) = (fst (run ?es (fst (snd ?r))), snd (run ?es (fst (snd ?r))))"
    by simp
  note t = sendMessage_rejected_while_in_flight
  from t[where s = ?a and chatId = "''c1''" and r = 0 and msg = "''again''" and atts = None,
      THEN conjunct1, rule_format, OF a]
    t[where s = ?s and chatId = "''c1''" and msg = "''list files in /tmp''" and atts = None
      and ?s1.0 = "fst (snd ?r)" and ?effs1.0 = "snd (snd ?r)" and es = ?es
      and ?s2.0 = "fst (run ?es (fst (snd ?r)))" and ?effs2.0 = "snd (run ?es (fst (snd ?r)))"
      and msg' = "''again''" and atts' = None,
      THEN conjunct2, rule_format] b e c d
  show ?thesis by blast
qed

text \<open>
  Claim C3 as stated also says that no two children of one chat are live at once. A
  \<^verbatim>\<open>result\<close> line clears \<^verbatim>\<open>isProcessing\<close> while the child that wrote it is still
  running; the next \<^verbatim>\<open>sendMessage\<close> is accepted and spawns a second child. Both
  processes of chat \<open>c1\<close> are then live: neither was signalled, neither has exited.
\<close>

theorem two_children_live_counterexample:
  "fst (sendMessage ''c1'' ''second'' None (fst (run first_turn_done init))) = True
   \<and> map (\<lambda>c. (owner_chat c, killed c, exitCode c, signalCode c))
        (procs (fst (snd (sendMessage ''c1'' ''second'' None (fst (run first_turn_done init))))))
      = [(''c1'', False, None, None), (''c1'', False, None, None)]"
  by code_simp

section \<open>Awaiting approval and pending requests\<close>

lemma pending_respond:
  "list_all awaiting_has_pending (objs s) \<Longrightarrow> respondToApproval chatId response s = (ok, s', effs)
     \<Longrightarrow> list_all awaiting_has_pending (objs s')"
  by (auto simp: respondToApproval_def awaiting_has_pending_def
      split: option.splits if_splits intro!: list_all_upd)

lemma pending_approve_all:
  "list_all awaiting_has_pending (objs s) \<Longrightarrow> approve_all chatId ks s = (s', effs)
     \<Longrightarrow> list_all awaiting_has_pending (objs s')"
proof (induction ks arbitrary: s s' effs)
  case Nil
  then show ?case by simp
next
  case (Cons k ks)
  then show ?case by (auto split: prod.splits dest: pending_respond)
qed

lemma pending_setAutoApprove:
  assumes "list_all awaiting_has_pending (objs s)" "setAutoApprove chatId enabled s = (ok, s', effs)"
  shows "list_all awaiting_has_pending (objs s')"
proof (cases "map_of (chats s) chatId")
  case None
  with assms show ?thesis by (simp add: setAutoApprove_def)
next
  case (Some r)
  have "list_all awaiting_has_pending (objs (upd r (\<lambda>m. m\<lparr>autoApprove := enabled\<rparr>) s))"
    using assms(1) by (rule list_all_upd) (simp add: awaiting_has_pending_def)
  with assms(2) Some show ?thesis
    by (auto simp: setAutoApprove_def Let_def split: if_splits prod.splits dest: pending_approve_all)
qed

lemma pending_handleControlRequest:
  assumes "list_all awaiting_has_pending (objs s)" "handleControlRequest msg managed chatId s = (e, s', effs)"
  shows "list_all awaiting_has_pending (objs s')"
proof -
  define rid where "rid = getp msg ''request_id''"
  define request where "request = \<lparr>request_id = rid, rq_chat_id = chatId,
     tool_name = getp (getp msg ''request'') ''tool_name'',
     tool_use_id = getp (getp msg ''request'') ''tool_use_id'',
     input = getp (getp msg ''request'') ''input'',
     suggestions = getp (getp msg ''request'') ''permission_suggestions''\<rparr>"
  let ?s1 = "upd managed (\<lambda>m. m\<lparr>pendingApprovals := AList.update rid request (pendingApprovals m)\<rparr>) s"
  let ?s2 = "upd managed (\<lambda>m. m\<lparr>pendingApprovals := AList.update rid request (pendingApprovals m),
                 processState := AwaitingApproval\<rparr>) s"
  have 1: "list_all awaiting_has_pending (objs ?s1)"
    using assms(1) by (rule list_all_upd) (simp add: awaiting_has_pending_def)
  have 2: "list_all awaiting_has_pending (objs ?s2)"
    using assms(1) by (rule list_all_upd) (simp add: awaiting_has_pending_def)
  from assms(2) have "s' = s \<or> s' = ?s2 \<or> (\<exists>ok effs'. respondToApproval chatId
        \<lparr>rs_request_id = rid, behavior = Allow, updated_input = JUndefined, message = JUndefined\<rparr>
        ?s1 = (ok, s', effs'))"
    unfolding handleControlRequest_def Let_def rid_def[symmetric] request_def[symmetric]
    by (auto split: if_splits option.splits prod.splits)
  then show ?thesis using assms(1) 1 2 pending_respond by blast
qed

lemma pending_handleStreamLine:
  assumes "list_all awaiting_has_pending (objs s)" "handleStreamLine parsed managed chatId s = (s', effs)"
  shows "list_all awaiting_has_pending (objs s')"
proof -
  have "list_all awaiting_has_pending
          (objs (upd managed (\<lambda>m. m\<lparr>isProcessing := False, processState := Idle\<rparr>) s))"
    using assms(1) by (rule list_all_upd) (simp add: awaiting_has_pending_def)
  with assms show ?thesis
    by (auto simp: handleStreamLine_def split: option.splits if_splits prod.splits
        dest: pending_handleControlRequest)
qed

lemma pending_sendMessage:
  assumes "list_all awaiting_has_pending (objs s)" "sendMessage chatId msg atts s = (ok, s', effs)"
  shows "list_all awaiting_has_pending (objs s')"
proof (cases "map_of (chats s) chatId")
  case None
  with assms show ?thesis by (simp add: sendMessage_def)
next
  case (Some r)
  define s1 where "s1 = (if stale s (objs s ! r)
       then upd r (\<lambda>m. m\<lparr>isProcessing := False, processState := Idle\<rparr>) s else s)"
  have 1: "list_all awaiting_has_pending (objs s1)"
    unfolding s1_def using assms(1) by (auto intro!: list_all_upd simp: awaiting_has_pending_def)
  have 2: "list_all awaiting_has_pending (objs (upd r (\<lambda>m. m\<lparr>isProcessing := True, processState := Processing,
                                     messageCount := messageCount m + 1,
                                     currentProcess := Some (length (procs s1)), stdoutRL := Some (length (procs s1)),
                                     chat := (chat m)\<lparr>wc_pid := Some (length (procs s1))\<rparr>\<rparr>) s1))"
    using 1 by (rule list_all_upd) (simp add: awaiting_has_pending_def)
  from assms(2) Some have "objs s' = objs s1
     \<or> objs s' = objs (upd r (\<lambda>m. m\<lparr>isProcessing := True, processState := Processing,
                                     messageCount := messageCount m + 1,
                                     currentProcess := Some (length (procs s1)), stdoutRL := Some (length (procs s1)),
                                     chat := (chat m)\<lparr>wc_pid := Some (length (procs s1))\<rparr>\<rparr>) s1)"
    unfolding sendMessage_def Let_def s1_def by (auto split: if_splits)
  with 1 2 show ?thesis by auto
qed

lemma pending_createChat:
  "list_all awaiting_has_pending (objs s) \<Longrightarrow> createChat cid fresh cwd name sp ex pmode s = (c, s', effs)
     \<Longrightarrow> list_all awaiting_has_pending (objs s')"
  by (auto simp: createChat_def Let_def awaiting_has_pending_def)

lemma pending_on_exit:
  assumes "list_all awaiting_has_pending (objs s)" "on_exit p code signal s = (s', effs)"
  shows "list_all awaiting_has_pending (objs s')"
proof (cases "p < length (procs s)")
  case True
  have "list_all awaiting_has_pending (objs (upd (owner (procs s ! p)) (\<lambda>m. m\<lparr>isProcessing := False, processState := Finished,
                               currentProcess := None\<rparr>) (upd_proc p (\<lambda>c. c\<lparr>exitCode := code, signalCode := signal\<rparr>) s)))"
    by (rule list_all_upd) (use assms(1) in \<open>simp_all add: awaiting_has_pending_def\<close>)
  with assms(2) True show ?thesis by (auto simp: on_exit_def Let_def)
next
  case False
  with assms show ?thesis by (simp add: on_exit_def)
qed

lemma pending_on_error:
  assumes "list_all awaiting_has_pending (objs s)" "on_error p err s = (s', effs)"
  shows "list_all awaiting_has_pending (objs s')"
proof (cases "p < length (procs s)")
  case True
  have "list_all awaiting_has_pending (objs (upd (owner (procs s ! p)) (\<lambda>m. m\<lparr>isProcessing := False, processState := ErrorState,
                               currentProcess := None\<rparr>) s))"
    using assms(1) by (rule list_all_upd) (simp add: awaiting_has_pending_def)
  with assms(2) True show ?thesis by (auto simp: on_error_def Let_def)
next
  case False
  with assms show ?thesis by (simp add: on_error_def)
qed

lemma pending_stopChat:
  assumes "list_all awaiting_has_pending (objs s)" "stopChat chatId s = (ok, s', effs)"
  shows "list_all awaiting_has_pending (objs s')"
proof (cases "map_of (chats s) chatId")
  case None
  with assms show ?thesis by (simp add: stopChat_def)
next
  case (Some r)
  have "\<And>s0. objs s0 = objs s \<Longrightarrow>
     list_all awaiting_has_pending (objs (upd r (\<lambda>m. m\<lparr>chat := (chat m)\<lparr>wc_status := ''stopped''\<rparr>\<rparr>) s0))"
    by (rule list_all_upd) (use assms(1) in \<open>simp_all add: awaiting_has_pending_def\<close>)
  with assms(2) Some show ?thesis
    by (auto simp: stopChat_def Let_def split: option.splits)
qed

lemma objs_cleanup_loop: "objs (snd (cleanup_loop xs s)) = objs s"
  by (induction xs s rule: cleanup_loop.induct) (auto split: prod.splits)

lemma pending_step:
  "list_all awaiting_has_pending (objs s) \<Longrightarrow> step e s = (s', effs)
     \<Longrightarrow> list_all awaiting_has_pending (objs s')"
proof (cases e)
  case Cleanup
  assume "list_all awaiting_has_pending (objs s)" "step e s = (s', effs)"
  with Cleanup show ?thesis by (auto simp: cleanup_def objs_cleanup_loop)
next
  case (Line p parsed)
  assume "list_all awaiting_has_pending (objs s)" "step e s = (s', effs)"
  with Line show ?thesis
    by (auto simp: on_line_def split: if_splits dest: pending_handleStreamLine)
qed (auto split: prod.splits
      dest: pending_createChat pending_sendMessage pending_respond pending_setAutoApprove
        pending_stopChat pending_on_exit pending_on_error)

lemma pending_run:
  "list_all awaiting_has_pending (objs s) \<Longrightarrow> run es s = (s', effs)
     \<Longrightarrow> list_all awaiting_has_pending (objs s')"
proof (induction es arbitrary: s s' effs)
  case Nil
  then show ?case by simp
next
  case (Cons e es)
  then show ?case by (auto split: prod.splits dest: pending_step)
qed

text \<open>
  Claim C4, as amended. In every state the manager reaches from its initial state, by any
  sequence of calls and process events, a chat whose \<^verbatim>\<open>processState\<close> is
  \<^verbatim>\<open>awaiting_approval\<close> has a non-empty \<^verbatim>\<open>pendingApprovals\<close>; every single call or
  event preserves this (storing an approval request, answering one of several, the exit
  of the child). The converse does not hold.
\<close>

theorem awaiting_implies_pending:
  "list_all awaiting_has_pending (objs (fst (run es init)))
   \<and> (list_all awaiting_has_pending (objs s)
        \<longrightarrow> list_all awaiting_has_pending (objs (fst (step e s))))"
proof
  have "list_all awaiting_has_pending (objs init)" by (simp add: init_def)
  moreover have "run es init = (fst (run es init), snd (run es init))" by simp
  ultimately show "list_all awaiting_has_pending (objs (fst (run es init)))" by (rule pending_run)
next
  have "step e s = (fst (step e s), snd (step e s))" by simp
  then show "list_all awaiting_has_pending (objs s)
        \<longrightarrow> list_all awaiting_has_pending (objs (fst (step e s)))"
    using pending_step by blast
qed

text \<open>The chat that awaits two approvals.\<close>

theorem awaiting_implies_pending_witness:
  "processState (objs (fst (run awaiting_two init)) ! 0) = AwaitingApproval
   \<and> pendingApprovals (objs (fst (run awaiting_two init)) ! 0) \<noteq> []"
proof -
  have a: "processState (objs (fst (run awaiting_two init)) ! 0) = AwaitingApproval"
    "0 < length (objs (fst (run awaiting_two init)))"
    by code_simp+
  from awaiting_implies_pending[of awaiting_two, THEN conjunct1] a show ?thesis
    by (simp add: list_all_length awaiting_has_pending_def)
qed

text \<open>
  Claim C4 as stated is an equivalence. After one of two pending requests is answered,
  \<^verbatim>\<open>respondToApproval\<close> has set \<^verbatim>\<open>processState\<close> to \<^verbatim>\<open>processing\<close> although a
  request is still pending and the child is alive.
\<close>

theorem processing_with_pending_counterexample:
  "processState (objs (fst (run (awaiting_two @ [RespondToApproval ''c1'' (allow ''r1'')]) init)) ! 0)
      = Processing
   \<and> map fst (pendingApprovals
        (objs (fst (run (awaiting_two @ [RespondToApproval ''c1'' (allow ''r1'')]) init)) ! 0))
      = [JStr ''r2'']
   \<and> currentProcess (objs (fst (run (awaiting_two @ [RespondToApproval ''c1'' (allow ''r1'')]) init)) ! 0)
      = Some 0
   \<and> map (\<lambda>c. (killed c, exitCode c, signalCode c))
        (procs (fst (run (awaiting_two @ [RespondToApproval ''c1'' (allow ''r1'')]) init)))
      = [(False, None, None)]"
  by code_simp

text \<open>
  Nor does \<^verbatim>\<open>awaiting_approval\<close> imply a process handle: the \<^verbatim>\<open>'error'\<close> handler
  releases the handle and leaves the readline interface open (an \<^verbatim>\<open>'error'\<close> event
  also reports a signal that could not be delivered to a running child), and a request
  that arrives afterwards sets \<^verbatim>\<open>awaiting_approval\<close>.
\<close>

lemma awaiting_without_handle:
  "processState (objs (fst (run [CreateChat ''c1'' ''sess-1'' ''/tmp'' None None None Assisted,
      SendMessage ''c1'' ''list files in /tmp'' None, Error 0 ''kill EPERM'',
      Line 0 (Some (can_use_tool_line ''r1'' ''Bash''))] init)) ! 0) = AwaitingApproval
   \<and> currentProcess (objs (fst (run [CreateChat ''c1'' ''sess-1'' ''/tmp'' None None None Assisted,
      SendMessage ''c1'' ''list files in /tmp'' None, Error 0 ''kill EPERM'',
      Line 0 (Some (can_use_tool_line ''r1'' ''Bash''))] init)) ! 0) = None"
  by code_simp

section \<open>Auto-approve\<close>






section \<open>Exit of the child\<close>





















section \<open>Transcript entries of content blocks\<close>

lemma assistant_blocks_entries:
  "assistant_blocks chatId blocks =
     (if \<exists>b \<in> set blocks. block_raises b then Some TypeError else None,
      map Emit (List.map_filter (block_entry chatId) (takeWhile (\<lambda>b. \<not> block_raises b) blocks)))"
  by (induction blocks)
    (auto simp: block_raises_def block_entry_def split: prod.splits)

lemma handleStreamLine_assistant:
  assumes "getp msg ''type'' = JStr ''assistant''"
    and "getp (getp msg ''message'') ''content'' = JArr blocks"
  shows "handleStreamLine (Some msg) managed chatId s =
     (s, map Emit (List.map_filter (block_entry chatId) (takeWhile (\<lambda>b. \<not> block_raises b) blocks)))"
proof -
  from assms have nn: "\<not> nullish msg" "\<not> nullish (getp msg ''message'')"
    by (auto simp: nullish_def)
  then have a: "assistant_part msg chatId = assistant_blocks chatId blocks"
    using assms by (simp add: assistant_part_def opt_prop_def)
  show ?thesis
    using assms nn
    by (simp add: handleStreamLine_def a assistant_blocks_entries user_part_def)
qed






section \<open>The Task tool\<close>

text \<open>
  \<^verbatim>\<open>handleStreamLine\<close> emits the generic \<^verbatim>\<open>tool_use\<close> entry for every \<^verbatim>\<open>tool_use\<close>
  block, whatever its name; the transcript route maps a block named \<^verbatim>\<open>Task\<close> to an
  \<^verbatim>\<open>agent_spawn\<close> entry.
\<close>

lemma tool_use_always_generic:
  assumes "getp msg ''type'' = JStr ''assistant''"
    and "getp (getp msg ''message'') ''content'' = JArr [block]"
    and "getp block ''type'' = JStr ''tool_use''"
  shows "handleStreamLine (Some msg) managed chatId s = (s, [Emit (tool_use_entry chatId block)])"
proof -
  have "\<not> block_raises block" "block_entry chatId block = Some (tool_use_entry chatId block)"
    using assms(3) by (auto simp: block_raises_def block_entry_def nullish_def)
  then show ?thesis
    using handleStreamLine_assistant[OF assms(1,2)] by simp
qed

lemma session_task_is_agent_spawn:
  "getp tool ''name'' = JStr ''Task'' \<Longrightarrow> fst (session_tool_entry fresh tool) = ''agent_spawn''"
  by (simp add: session_tool_entry_def)

text \<open>
  Claim C9 says that a parsed \<^verbatim>\<open>tool_use\<close> block named \<^verbatim>\<open>Task\<close> becomes an
  agent-spawn entry that carries the agent type, the description and the prompt, and not
  a generic tool-use entry. On the same \<^verbatim>\<open>Task\<close> block the transcript route does so,
  while the live handler \<^verbatim>\<open>handleStreamLine\<close> emits a \<^verbatim>\<open>tool_use\<close> entry.
\<close>

theorem task_block_is_generic_tool_use:
  "handleStreamLine (Some task_line) 0 ''c1'' init
     = (init,
        [Emit (TranscriptEntry ''c1'' ''tool_use''
                (JObj [(''type'', JStr ''tool_use''), (''tool_name'', JStr ''Task''),
                       (''tool_id'', JStr ''t7''),
                       (''input'', JObj [(''subagent_type'', JStr ''reviewer''),
                                         (''description'', JStr ''Review the diff''),
                                         (''prompt'', JStr ''Look at the last commit.'')])]))])
   \<and> fst (session_tool_entry ''0f3a9c1e'' task_block) = ''agent_spawn''"
  by code_simp

section \<open>Further properties\<close>

text \<open>
  An answered request is consumed: after a successful \<^verbatim>\<open>respondToApproval\<close> the
  request id is no longer a key of \<^verbatim>\<open>pendingApprovals\<close>, and a second decision for the
  same id fails without effect.
\<close>

theorem answered_request_is_gone:
  assumes "respondToApproval chatId response s = (True, s', effs)"
    and "map_of (chats s) chatId = Some r" and "well_formed s"
    and "rs_request_id response' = rs_request_id response"
  shows "map_of (pendingApprovals (objs s' ! r)) (rs_request_id response) = None
     \<and> respondToApproval chatId response' s' = (False, s', [])"
proof -
  from assms(1,2) have s': "s' = upd r (\<lambda>m. m\<lparr>pendingApprovals :=
        AList.delete (rs_request_id response) (pendingApprovals m), processState := Processing\<rparr>) s"
    by (auto simp: respondToApproval_def split: option.splits if_splits)
  have "r < length (objs s)" using assms(3,2) by (rule wf_chat_ref)
  with s' have gone: "map_of (pendingApprovals (objs s' ! r)) (rs_request_id response) = None"
    by (simp add: upd_def delete_conv')
  have "map_of (chats s') chatId = Some r" using s' assms(2) by simp
  with gone assms(4) show ?thesis by (simp add: respondToApproval_def)
qed

theorem answered_request_is_gone_witness:
  "map_of (pendingApprovals (objs (fst (snd (respondToApproval ''c1'' (allow ''r1'')
        (fst (run awaiting_two init))))) ! 0)) (JStr ''r1'') = None
   \<and> respondToApproval ''c1'' (deny ''r1'' JUndefined)
        (fst (snd (respondToApproval ''c1'' (allow ''r1'') (fst (run awaiting_two init)))))
      = (False, fst (snd (respondToApproval ''c1'' (allow ''r1'') (fst (run awaiting_two init)))), [])"
proof -
  let ?a = "fst (run awaiting_two init)"
  let ?x = "respondToApproval ''c1'' (allow ''r1'') ?a"
  have "fst ?x = True" by code_simp
  then have e: "?x = (True, fst (snd ?x), snd (snd ?x))" by (rule accepted_triple)
  have h: "map_of (chats ?a) ''c1'' = Some 0" "well_formed ?a" by code_simp+
  have i: "rs_request_id (deny ''r1'' JUndefined) = rs_request_id (allow ''r1'')"
    by (simp add: allow_def deny_def)
  from answered_request_is_gone[OF e h i] show ?thesis by (simp add: allow_def)
qed

text \<open>
  A \<^verbatim>\<open>result\<close> line ends the turn: \<^verbatim>\<open>isProcessing\<close> is cleared, \<^verbatim>\<open>processState\<close>
  becomes \<^verbatim>\<open>idle\<close> and one status event (\<^verbatim>\<open>ready\<close>, \<^verbatim>\<open>idle\<close>) is emitted; the
  process handle stays.
\<close>

theorem result_line_sets_idle:
  assumes "getp msg ''type'' = JStr ''result''"
  shows "handleStreamLine (Some msg) managed chatId s =
     (upd managed (\<lambda>m. m\<lparr>isProcessing := False, processState := Idle\<rparr>) s,
      [Emit (ChatStatus chatId ''ready'' (Some Idle) None)])"
proof -
  from assms have "\<not> nullish msg" by (auto simp: nullish_def)
  with assms show ?thesis
    by (simp add: handleStreamLine_def assistant_part_def user_part_def)
qed

theorem result_line_sets_idle_witness:
  "processState (objs (fst (run first_turn_done init)) ! 0) = Idle
   \<and> \<not> isProcessing (objs (fst (run first_turn_done init)) ! 0)
   \<and> currentProcess (objs (fst (run first_turn_done init)) ! 0) = Some 0"
proof -
  let ?s = "fst (run [CreateChat ''c1'' ''sess-1'' ''/tmp'' None (Some ''Be brief.'') None Assisted,
      SendMessage ''c1'' ''first'' None] init)"
  let ?msg = "JObj [(''type'', JStr ''result''), (''subtype'', JStr ''success'')]"
  have h: "getp ?msg ''type'' = JStr ''result''" by simp
  have o: "0 < length (procs ?s) \<and> \<not> rl_closed (procs ?s ! 0) \<and> owner (procs ?s ! 0) = 0
     \<and> owner_chat (procs ?s ! 0) = ''c1'' \<and> 0 < length (objs ?s)
     \<and> currentProcess (objs ?s ! 0) = Some 0" by code_simp
  have r: "fst (run first_turn_done init) = fst (on_line 0 (Some ?msg) ?s)"
    by (simp add: first_turn_done_def split: prod.splits)
  show ?thesis
    unfolding r using o result_line_sets_idle[OF h, of 0 "''c1''" ?s]
    by (simp add: on_line_def upd_def)
qed

text \<open>
  \<^verbatim>\<open>createChat\<close> registers an idle chat and spawns nothing: its only effect is the
  status event.
\<close>

theorem createChat_spawns_nothing:
  "createChat cid fresh cwd name sp existing pmode s = (c, s', effs) \<longrightarrow>
     effs = [Emit (ChatStatus cid ''running'' None None)]
     \<and> procs s' = procs s
     \<and> map_of (chats s') cid = Some (length (objs s))
     \<and> wc_status c = ''running''
     \<and> processState (objs s' ! length (objs s)) = Idle
     \<and> \<not> isProcessing (objs s' ! length (objs s))
     \<and> currentProcess (objs s' ! length (objs s)) = None
     \<and> pendingApprovals (objs s' ! length (objs s)) = []
     \<and> \<not> autoApprove (objs s' ! length (objs s))"
  by (auto simp: createChat_def Let_def map_of_update_same)

theorem createChat_spawns_nothing_witness:
  "snd (snd (createChat ''c1'' ''sess-1'' ''/tmp'' None None None Assisted init))
     = [Emit (ChatStatus ''c1'' ''running'' None None)]
   \<and> procs (fst (snd (createChat ''c1'' ''sess-1'' ''/tmp'' None None None Assisted init))) = []"
proof -
  let ?x = "createChat ''c1'' ''sess-1'' ''/tmp'' None None None Assisted init"
  have "?x = (fst ?x, fst (snd ?x), snd (snd ?x))" by simp
  from createChat_spawns_nothing[rule_format, OF this] show ?thesis by (simp add: init_def)
qed

end
